theory Spec2Isabelle
  imports Complex_Main "HOL-Library.Sublist" "HOL-Library.Log_Nat"
begin

section \<open>Conventions of the embedding\<close>

text \<open>
  The classification and scoring core of the repository is Python. The embedding keeps
  the source's names and control flow.
  \<^item> A Python \<open>float\<close> is a rational number (\<open>rat\<close>). The score formula and the sentiment
    polarity are read with exact sums, products and quotients. Where a statement depends
    on the rounding of the float operations (the topic trend, the bounds of the score),
    every operation is rounded to the nearest double by \<open>fl\<close>.
  \<^item> A Python \<open>str\<close> is a \<open>string\<close>. \<open>kw in text\<close> is the contiguous-substring test,
    \<open>sublist kw text\<close>. \<open>str.lower\<close> maps the ASCII capitals to their small letters and
    leaves every other character alone; all keyword tables of the source are ASCII.
  \<^item> A nullable column or an optional dictionary key is an \<open>option\<close>.
  \<^item> An exception is a value: a function that may raise returns \<open>py_exn + 'a\<close>.
\<close>

datatype py_exn = TypeError | KeyError | JSONDecodeError | OtherException

definition lower_char :: "char \<Rightarrow> char" where
  "lower_char c =
     (case map_of (zip ''ABCDEFGHIJKLMNOPQRSTUVWXYZ'' ''abcdefghijklmnopqrstuvwxyz'') c of
        Some l \<Rightarrow> l
      | None \<Rightarrow> c)"

definition lower :: "string \<Rightarrow> string" where
  "lower s = map lower_char s"

text \<open>\<open>any(kw in text for kw in kws)\<close>\<close>

definition any_in :: "string list \<Rightarrow> string \<Rightarrow> bool" where
  "any_in kws text = list_ex (\<lambda>kw. sublist kw text) kws"


section \<open>Double-precision rounding\<close>

text \<open>
  \<open>fl x\<close> is the double nearest to \<open>x\<close>: with \<open>2\<^sup>e \<le> |x| < 2\<^sup>e\<^sup>+\<^sup>1\<close> it is the multiple of
  \<open>2\<^sup>e\<^sup>-\<^sup>5\<^sup>2\<close> nearest to \<open>x\<close>, a tie going to the even multiple (53 significant bits,
  round to nearest even). The exponent is not bounded: \<open>fl\<close> is the rounding of IEEE 754
  binary64 for magnitudes from \<open>2\<^sup>-\<^sup>1\<^sup>0\<^sup>2\<^sup>2\<close> up to the overflow threshold, and every value
  computed below from mention counts and from confidences in \<open>[0,1]\<close> is either 0 or of
  such a magnitude, a confidence below \<open>2\<^sup>-\<^sup>1\<^sup>0\<^sup>2\<^sup>2\<close> apart. Python rounds each float
  operation (\<open>+\<close>, \<open>*\<close>, \<open>/\<close>, also \<open>int / int\<close>) once, to the nearest double of the exact result.
\<close>

definition round_half_even :: "rat \<Rightarrow> int" where
  "round_half_even y =
     (let f = \<lfloor>y\<rfloor>; d = y - of_int f
      in if d < 1 / 2 then f else if 1 / 2 < d then f + 1 else if even f then f else f + 1)"

definition binade :: "rat \<Rightarrow> int" where
  "binade x =
     (let a = fst (quotient_of \<bar>x\<bar>); b = snd (quotient_of \<bar>x\<bar>);
          e0 = bitlen a - bitlen b
      in if 2 powi e0 \<le> \<bar>x\<bar> then e0 else e0 - 1)"

definition fl :: "rat \<Rightarrow> rat" where
  "fl x =
     (if x = 0 then 0
      else let q = 2 powi (binade x - 52) in of_int (round_half_even (x / q)) * q)"


section \<open>Reputation score (\<open>app/api/main.py\<close>, \<open>_calculate_reputation_score\<close>)\<close>

text \<open>The columns of \<open>UserMention\<close> the scorer reads; all four are nullable.\<close>

record user_mention =
  sentiment :: "string option"
  priority :: "string option"
  intent :: "string option"
  confidence_score :: "rat option"

text \<open>
  One pass of the \<open>for mention in mentions\<close> loop. The state is the pair
  \<open>(total_weight, weighted_score)\<close>. \<open>mention.confidence_score or 0.5\<close> yields 0.5 when the
  column is \<open>None\<close> and also when it is \<open>0.0\<close>, since both are falsy.
\<close>

definition score_step :: "user_mention \<Rightarrow> rat \<times> rat \<Rightarrow> rat \<times> rat" where
  "score_step mention acc =
     (let sentiment_score =
            (if sentiment mention = Some ''positive'' then 80
             else if sentiment mention = Some ''negative'' then 20
             else 50);
          priority_weight =
            (if priority mention = Some ''critical'' then 3
             else if priority mention = Some ''high'' then 2
             else if priority mention = Some ''medium'' then 3 / 2
             else 1);
          intent_modifier =
            (if intent mention = Some ''complaint'' then 2
             else if intent mention = Some ''recommendation'' then 3 / 2
             else 1);
          confidence_weight =
            (case confidence_score mention of
               None \<Rightarrow> 1 / 2
             | Some c \<Rightarrow> if c = 0 then 1 / 2 else c);
          final_weight = priority_weight * intent_modifier * confidence_weight
      in (fst acc + final_weight, snd acc + sentiment_score * final_weight))"

fun score_loop :: "user_mention list \<Rightarrow> rat \<times> rat \<Rightarrow> rat \<times> rat" where
  "score_loop [] acc = acc"
| "score_loop (mention # mentions) acc = score_loop mentions (score_step mention acc)"

definition calculate_reputation_score :: "user_mention list \<Rightarrow> rat" where
  "calculate_reputation_score mentions =
     (if mentions = [] then 50
      else
        let acc = score_loop mentions (0, 0);
            total_weight = fst acc;
            weighted_score = snd acc;
            final_score = (if total_weight > 0 then weighted_score / total_weight else 50)
        in max 0 (min 100 final_score))"

subsection \<open>The same function with every float operation rounded\<close>

text \<open>
  \<open>priority_weight * intent_modifier * confidence_weight\<close> is two products, each rounded;
  \<open>sentiment_score * final_weight\<close> and the two \<open>+=\<close> are rounded, and so is the final
  quotient. The constants and \<open>0\<close>, \<open>50.0\<close>, \<open>100\<close> are doubles as they stand.
\<close>

definition score_step_float :: "user_mention \<Rightarrow> rat \<times> rat \<Rightarrow> rat \<times> rat" where
  "score_step_float mention acc =
     (let sentiment_score =
            (if sentiment mention = Some ''positive'' then 80
             else if sentiment mention = Some ''negative'' then 20
             else 50);
          priority_weight =
            (if priority mention = Some ''critical'' then 3
             else if priority mention = Some ''high'' then 2
             else if priority mention = Some ''medium'' then 3 / 2
             else 1);
          intent_modifier =
            (if intent mention = Some ''complaint'' then 2
             else if intent mention = Some ''recommendation'' then 3 / 2
             else 1);
          confidence_weight =
            (case confidence_score mention of
               None \<Rightarrow> 1 / 2
             | Some c \<Rightarrow> if c = 0 then 1 / 2 else c);
          final_weight = fl (fl (priority_weight * intent_modifier) * confidence_weight)
      in (fl (fst acc + final_weight), fl (snd acc + fl (sentiment_score * final_weight))))"

fun score_loop_float :: "user_mention list \<Rightarrow> rat \<times> rat \<Rightarrow> rat \<times> rat" where
  "score_loop_float [] acc = acc"
| "score_loop_float (mention # mentions) acc =
     score_loop_float mentions (score_step_float mention acc)"

definition calculate_reputation_score_float :: "user_mention list \<Rightarrow> rat" where
  "calculate_reputation_score_float mentions =
     (if mentions = [] then 50
      else
        let acc = score_loop_float mentions (0, 0);
            total_weight = fst acc;
            weighted_score = snd acc;
            final_score =
              (if total_weight > 0 then fl (weighted_score / total_weight) else 50)
        in max 0 (min 100 final_score))"

subsection \<open>The score as the specification words it\<close>

definition sentiment_value :: "user_mention \<Rightarrow> rat" where
  "sentiment_value m =
     (if sentiment m = Some ''positive'' then 80
      else if sentiment m = Some ''negative'' then 20 else 50)"

definition priority_weight :: "user_mention \<Rightarrow> rat" where
  "priority_weight m =
     (if priority m = Some ''critical'' then 3
      else if priority m = Some ''high'' then 2
      else if priority m = Some ''medium'' then 3 / 2 else 1)"

definition intent_modifier :: "user_mention \<Rightarrow> rat" where
  "intent_modifier m =
     (if intent m = Some ''complaint'' then 2
      else if intent m = Some ''recommendation'' then 3 / 2 else 1)"

text \<open>The confidence factor as the claim words it: the stored score, 0.5 when absent.\<close>

definition confidence_when_absent :: "user_mention \<Rightarrow> rat" where
  "confidence_when_absent m = (case confidence_score m of None \<Rightarrow> 1 / 2 | Some c \<Rightarrow> c)"

text \<open>The confidence factor with a stored zero replaced as well.\<close>

definition confidence_or_half :: "user_mention \<Rightarrow> rat" where
  "confidence_or_half m =
     (case confidence_score m of None \<Rightarrow> 1 / 2 | Some c \<Rightarrow> if c = 0 then 1 / 2 else c)"

definition clamp_0_100 :: "rat \<Rightarrow> rat" where
  "clamp_0_100 x = max 0 (min 100 x)"

text \<open>
  The weighted average over a confidence factor \<open>cf\<close>:
  \<open>\<Sum>(sentimentValue \<times> weight) / \<Sum>(weight)\<close> with
  \<open>weight = priority weight \<times> intent modifier \<times> cf\<close>.
\<close>

definition mention_weight :: "(user_mention \<Rightarrow> rat) \<Rightarrow> user_mention \<Rightarrow> rat" where
  "mention_weight cf m = priority_weight m * intent_modifier m * cf m"

definition total_weight_of :: "(user_mention \<Rightarrow> rat) \<Rightarrow> user_mention list \<Rightarrow> rat" where
  "total_weight_of cf ms = sum_list (map (mention_weight cf) ms)"

definition weighted_sum_of :: "(user_mention \<Rightarrow> rat) \<Rightarrow> user_mention list \<Rightarrow> rat" where
  "weighted_sum_of cf ms = sum_list (map (\<lambda>m. sentiment_value m * mention_weight cf m) ms)"

definition weighted_average :: "(user_mention \<Rightarrow> rat) \<Rightarrow> user_mention list \<Rightarrow> rat" where
  "weighted_average cf ms = weighted_sum_of cf ms / total_weight_of cf ms"

text \<open>The data-model invariant on a stored confidence: never negative.\<close>

definition confidence_nonneg :: "user_mention \<Rightarrow> bool" where
  "confidence_nonneg m = (case confidence_score m of None \<Rightarrow> True | Some c \<Rightarrow> 0 \<le> c)"

text \<open>The weight of a mention and the score before the clamp, as the code computes them.\<close>

definition final_weight_float :: "user_mention \<Rightarrow> rat" where
  "final_weight_float m =
     fl (fl ((if priority m = Some ''critical'' then 3
              else if priority m = Some ''high'' then 2
              else if priority m = Some ''medium'' then 3 / 2 else 1)
             * (if intent m = Some ''complaint'' then 2
                else if intent m = Some ''recommendation'' then 3 / 2 else 1))
         * (case confidence_score m of
              None \<Rightarrow> 1 / 2
            | Some c \<Rightarrow> if c = 0 then 1 / 2 else c))"

definition final_score_float :: "user_mention list \<Rightarrow> rat" where
  "final_score_float ms =
     (let acc = score_loop_float ms (0, 0)
      in if fst acc > 0 then fl (snd acc / fst acc) else 50)"

text \<open>The data-model invariant on a stored confidence: in \<open>[0,1]\<close>.\<close>

definition confidence_in_unit :: "user_mention \<Rightarrow> bool" where
  "confidence_in_unit m =
     (case confidence_score m of None \<Rightarrow> True | Some c \<Rightarrow> 0 \<le> c \<and> c \<le> 1)"

text \<open>
  The factor by which one rounded operation can change a ratio of two positive sums:
  \<open>(1 + u) / (1 - u)\<close> with the unit roundoff \<open>u = 2\<^sup>-\<^sup>5\<^sup>3\<close>.
\<close>

definition rounding_ratio :: rat where
  "rounding_ratio = (2 ^ 53 + 1) / (2 ^ 53 - 1)"


section \<open>Topic trend (\<open>app/api/main.py\<close>, \<open>_calculate_realistic_trend\<close>)\<close>

text \<open>
  \<open>round(x, 1)\<close> on a float: the exact value of the double \<open>x\<close> is rounded to the nearest
  multiple of 0.1, an exact tie going to the even neighbour, and the result is the
  double nearest to that decimal.
\<close>

definition py_round1 :: "rat \<Rightarrow> rat" where
  "py_round1 x = fl (of_int (round_half_even (x * 10)) / 10)"

text \<open>
  The arguments are Python \<open>int\<close>s (the callers pass \<open>len(...)\<close>). \<open>/\<close> is true division,
  rounded once; the product with 100 is rounded; \<open>min\<close>, \<open>max\<close> and the comparisons are
  exact.
\<close>

definition calculate_realistic_trend :: "int \<Rightarrow> int \<Rightarrow> rat" where
  "calculate_realistic_trend current_mentions previous_mentions =
     (if previous_mentions = 0 then
        (if current_mentions > 0 then 100 else 0)
      else if current_mentions = 0 then - 100
      else
        let raw_percentage =
              fl (fl (of_int (current_mentions - previous_mentions) / of_int previous_mentions)
                  * 100);
            MAX_POSITIVE_TREND = 500;
            MAX_NEGATIVE_TREND = - 100;
            trend_percentage =
              (if previous_mentions \<le> 3 then
                 (if current_mentions > previous_mentions * 3 then min 300 raw_percentage
                  else if of_int current_mentions < fl (of_int previous_mentions / 3)
                       then max (- 75) raw_percentage
                  else raw_percentage)
               else max MAX_NEGATIVE_TREND (min MAX_POSITIVE_TREND raw_percentage))
        in py_round1 trend_percentage)"

subsection \<open>The capping rules as the specification words them\<close>

text \<open>The rules are read as a cascade, top to bottom, with no rounding.\<close>

definition raw_change :: "int \<Rightarrow> int \<Rightarrow> rat" where
  "raw_change c p = of_int (c - p) / of_int p * 100"

definition trend_as_claimed :: "int \<Rightarrow> int \<Rightarrow> rat" where
  "trend_as_claimed c p =
     (if p = 0 \<and> c > 0 then 100
      else if p = 0 \<and> c = 0 then 0
      else if c = 0 \<and> p > 0 then - 100
      else if 0 < p \<and> p \<le> 3 then
        (if c > 3 * p then min 300 (raw_change c p)
         else if of_int c < (of_int p / 3 :: rat) then max (- 75) (raw_change c p)
         else raw_change c p)
      else max (- 100) (min 500 (raw_change c p)))"


section \<open>Intent classification (\<open>app/core/analysis_service.py\<close>, \<open>classify_intent\<close>)\<close>

text \<open>
  \<open>self.intent_patterns\<close>: a dict literal, iterated in the order it is written.
\<close>

definition intent_patterns :: "(string \<times> string list) list" where
  "intent_patterns =
     [(''complaint'',
       [''not working'', ''doesnt work'', ''broken'', ''terrible'', ''awful'', ''worst'',
        ''hate'', ''disappointed'', ''frustrated'', ''annoying'', ''useless'', ''horrible'',
        ''crash'', ''bug'', ''issue'', ''problem'', ''error'', ''fail'', ''refund'']),
      (''question'',
       [''how to'', ''how do'', ''can i'', ''is it possible'', ''help'', ''support'',
        ''what is'', ''where is'', ''when will'', ''why does'', ''tutorial'', ''guide'']),
      (''recommendation'',
       [''recommend'', ''suggest'', ''try'', ''should use'', ''better'', ''alternative'',
        ''prefer'', ''switch to'', ''instead of'', ''upgrade'']),
      (''neutral_mention'',
       [''using'', ''experience with'', ''tried'', ''found'', ''noticed'', ''seems'',
        ''appears'', ''looks like'', ''basically'', ''generally''])]"

text \<open>The dict \<open>classify_intent\<close> returns; \<open>all_scores\<close> is absent from the default.\<close>

record intent_result =
  i_intent :: string
  i_confidence :: rat
  keywords_matched :: "string list"
  all_scores :: "(string \<times> nat) list option"

text \<open>\<open>sum(1 for keyword in keywords if keyword in text_lower)\<close>\<close>

definition hit_count :: "string list \<Rightarrow> string \<Rightarrow> nat" where
  "hit_count keywords text_lower = length (filter (\<lambda>keyword. sublist keyword text_lower) keywords)"

text \<open>
  A dict keeps insertion order: assigning to a new key appends, assigning to a present key
  replaces its value in place.
\<close>

fun dict_set :: "string \<Rightarrow> 'v \<Rightarrow> (string \<times> 'v) list \<Rightarrow> (string \<times> 'v) list" where
  "dict_set k v [] = [(k, v)]"
| "dict_set k v ((k', v') # rest) =
     (if k' = k then (k, v) # rest else (k', v') # dict_set k v rest)"

text \<open>The loop that fills \<open>intent_scores\<close>.\<close>

fun intent_scores_loop ::
  "(string \<times> string list) list \<Rightarrow> string \<Rightarrow> (string \<times> nat) list \<Rightarrow> (string \<times> nat) list"
where
  "intent_scores_loop [] text_lower intent_scores = intent_scores"
| "intent_scores_loop ((intent_key, keywords) # rest) text_lower intent_scores =
     (let score = hit_count keywords text_lower
      in intent_scores_loop rest text_lower
           (if score > 0 then dict_set intent_key score intent_scores else intent_scores))"

text \<open>
  \<open>max(intent_scores.keys(), key=lambda k: intent_scores[k])\<close>: one pass over the keys
  in order, the running best replaced only by a strictly larger score. The pass is
  over the items, each key with its own score.
\<close>

fun py_max_by_score :: "string \<times> nat \<Rightarrow> (string \<times> nat) list \<Rightarrow> string \<times> nat" where
  "py_max_by_score best [] = best"
| "py_max_by_score best (item # items) =
     py_max_by_score (if snd item > snd best then item else best) items"

definition classify_intent :: "string \<Rightarrow> py_exn + intent_result" where
  "classify_intent text =
     (let text_lower = lower text;
          intent_scores = intent_scores_loop intent_patterns text_lower []
      in case intent_scores of
           [] \<Rightarrow> Inr \<lparr>i_intent = ''neutral_mention'', i_confidence = 1 / 2,
                      keywords_matched = [], all_scores = None\<rparr>
         | item # items \<Rightarrow>
             let primary = py_max_by_score item items;
                 primary_intent = fst primary;
                 confidence = min 1 (of_nat (snd primary) / 3)
             in case map_of intent_patterns primary_intent of
                  None \<Rightarrow> Inl KeyError
                | Some keywords \<Rightarrow>
                    Inr \<lparr>i_intent = primary_intent, i_confidence = confidence,
                         keywords_matched =
                           filter (\<lambda>keyword. sublist keyword text_lower) keywords,
                         all_scores = Some intent_scores\<rparr>)"


subsection \<open>The score table as the specification words it\<close>

text \<open>Each intent category with its number of keyword hits, in declaration order.\<close>

definition scored :: "(string \<times> string list) list \<Rightarrow> string \<Rightarrow> (string \<times> nat) list" where
  "scored ps t = map (\<lambda>ck. (fst ck, hit_count (snd ck) t)) ps"


section \<open>Sentiment (\<open>app/core/analysis_service.py\<close>)\<close>

text \<open>The backslash of a regular expression, which a string literal here cannot hold.\<close>

definition bs :: string where
  "bs = [CHR 0x5C]"

definition dissatisfaction_patterns :: "(string \<times> rat) list" where
  "dissatisfaction_patterns =
     [(bs @ ''b(alternative|alternatives)'' @ bs @ ''s+to'' @ bs @ ''b'', - (4 / 10)),
      (bs @ ''bother'' @ bs @ ''s+(apps?|options?|services?)'' @ bs
          @ ''s+(than|instead of|better than)'' @ bs @ ''b'', - (4 / 10)),
      (bs @ ''breplace(ment)?'' @ bs @ ''s+(for|to)'' @ bs @ ''b'', - (3 / 10)),
      (bs @ ''bswitch'' @ bs @ ''s+(from|away from)'' @ bs @ ''b'', - (3 / 10)),
      (bs @ ''bbetter'' @ bs @ ''s+(than|alternatives?|options?)'' @ bs @ ''b'', - (2 / 10)),
      (bs @ ''bcheaper'' @ bs @ ''s+(than|alternatives?|options?)'' @ bs @ ''b'', - (2 / 10)),
      (bs @ ''bwhat.*better'' @ bs @ ''b'', - (2 / 10)),
      (bs @ ''banything'' @ bs @ ''s+(better|cheaper)'' @ bs @ ''b'', - (2 / 10)),
      (bs @ ''bstop'' @ bs @ ''s+using'' @ bs @ ''b'', - (4 / 10)),
      (bs @ ''buninstall'' @ bs @ ''b'', - (4 / 10)),
      (bs @ ''bdelete'' @ bs @ ''b.*'' @ bs @ ''bapp'' @ bs @ ''b'', - (4 / 10)),
      (bs @ ''bworse'' @ bs @ ''s+than'' @ bs @ ''b'', - (3 / 10)),
      (bs @ ''bnot'' @ bs @ ''s+worth'' @ bs @ ''b'', - (3 / 10)),
      (bs @ ''bwaste'' @ bs @ ''s+of'' @ bs @ ''b'', - (4 / 10)),
      (bs @ ''bokay'' @ bs @ ''s+but'' @ bs @ ''b'', - (2 / 10)),
      (bs @ ''bfine'' @ bs @ ''s+but'' @ bs @ ''b'', - (2 / 10)),
      (bs @ ''bdecent'' @ bs @ ''s+but'' @ bs @ ''b'', - (2 / 10)),
      (bs @ ''bused'' @ bs @ ''s+to'' @ bs @ ''s+be'' @ bs @ ''s+(good|great|better)'' @ bs @ ''b'',
       - (3 / 10)),
      (bs @ ''bwant'' @ bs @ ''s+(better|cheaper|different)'' @ bs @ ''b'', - (2 / 10)),
      (bs @ ''bneed'' @ bs @ ''s+(something|anything)'' @ bs @ ''s+(better|cheaper|else)'' @ bs @ ''b'',
       - (3 / 10))]"

definition positive_reinforcement_patterns :: "(string \<times> rat) list" where
  "positive_reinforcement_patterns =
     [(bs @ ''blove'' @ bs @ ''s+(this|it|uber|lyft)'' @ bs @ ''b'', 2 / 10),
      (bs @ ''bamazing'' @ bs @ ''b'', 3 / 10),
      (bs @ ''bawesome'' @ bs @ ''b'', 3 / 10),
      (bs @ ''bperfect'' @ bs @ ''b'', 3 / 10),
      (bs @ ''bexcellent'' @ bs @ ''b'', 3 / 10),
      (bs @ ''bhighly'' @ bs @ ''s+recommend'' @ bs @ ''b'', 4 / 10),
      (bs @ ''bbest'' @ bs @ ''s+(app|service)'' @ bs @ ''b'', 3 / 10)]"

definition negative_reinforcement_patterns :: "(string \<times> rat) list" where
  "negative_reinforcement_patterns =
     [(bs @ ''bterrible'' @ bs @ ''b'', - (4 / 10)),
      (bs @ ''bawful'' @ bs @ ''b'', - (4 / 10)),
      (bs @ ''bhorrible'' @ bs @ ''b'', - (4 / 10)),
      (bs @ ''bnever'' @ bs @ ''s+(again|use|using)'' @ bs @ ''b'', - (4 / 10)),
      (bs @ ''bworst'' @ bs @ ''b'', - (4 / 10)),
      (bs @ ''bhate'' @ bs @ ''b'', - (4 / 10)),
      (bs @ ''bdisgusting'' @ bs @ ''b'', - (4 / 10))]"

text \<open>
  One \<open>for pattern, adjustment in patterns\<close> loop. \<open>re.search\<close> belongs to Python's
  library: it is the parameter \<open>re_search pattern text\<close>, true when the pattern matches
  somewhere in the text.
\<close>

fun adjustment_loop ::
  "(string \<Rightarrow> string \<Rightarrow> bool) \<Rightarrow> (string \<times> rat) list \<Rightarrow> string \<Rightarrow> rat \<Rightarrow> rat"
where
  "adjustment_loop re_search [] text_lower adjusted_polarity = adjusted_polarity"
| "adjustment_loop re_search ((pattern, adjustment) # rest) text_lower adjusted_polarity =
     adjustment_loop re_search rest text_lower
       (if re_search pattern text_lower then adjusted_polarity + adjustment
        else adjusted_polarity)"

definition apply_context_adjustments ::
  "(string \<Rightarrow> string \<Rightarrow> bool) \<Rightarrow> string \<Rightarrow> rat \<Rightarrow> rat"
where
  "apply_context_adjustments re_search text base_polarity =
     (let text_lower = lower text;
          a1 = adjustment_loop re_search dissatisfaction_patterns text_lower base_polarity;
          a2 = (if base_polarity > 0
                then adjustment_loop re_search positive_reinforcement_patterns text_lower a1
                else a1);
          a3 = adjustment_loop re_search negative_reinforcement_patterns text_lower a2
      in max (- 1) (min 1 a3))"

definition get_sentiment_label :: "rat \<Rightarrow> string" where
  "get_sentiment_label p =
     (if p > 5 / 100 then ''positive''
      else if p < - (5 / 100) then ''negative''
      else ''neutral'')"

text \<open>
  The dict \<open>analyze_sentiment\<close> returns. The rule-based result has \<open>base_polarity\<close> and no
  \<open>confidence\<close> or \<open>reasoning\<close>; the result of the external strategy has those two and
  no \<open>base_polarity\<close>. Values are taken at the types the contract gives them.
\<close>

record sentiment_result =
  polarity :: rat
  subjectivity :: rat
  sentiment_label :: string
  base_polarity :: "rat option"
  confidence :: "rat option"
  reasoning :: "string option"
  "method" :: string

subsection \<open>The adjusted polarity as the specification words it\<close>

text \<open>The sum of the deltas of the patterns that match.\<close>

definition triggered_deltas ::
  "(string \<Rightarrow> string \<Rightarrow> bool) \<Rightarrow> (string \<times> rat) list \<Rightarrow> string \<Rightarrow> rat"
where
  "triggered_deltas re_search patterns text_lower =
     sum_list (map snd (filter (\<lambda>pd. re_search (fst pd) text_lower) patterns))"

definition adjusted_sum :: "(string \<Rightarrow> string \<Rightarrow> bool) \<Rightarrow> string \<Rightarrow> rat \<Rightarrow> rat" where
  "adjusted_sum re_search text base =
     base
     + triggered_deltas re_search dissatisfaction_patterns (lower text)
     + (if base > 0 then triggered_deltas re_search positive_reinforcement_patterns (lower text)
        else 0)
     + triggered_deltas re_search negative_reinforcement_patterns (lower text)"


subsection \<open>The optional external strategy and \<open>analyze_sentiment\<close>\<close>

text \<open>
  What lies outside the repository is the environment: the variable \<open>OPENAI_API_KEY\<close>,
  the run of the crew on a text (building the LLM, agent, task and crew, \<open>crew.kickoff()\<close>
  and \<open>str(result)\<close>; \<open>Inl\<close> when any of it raises), \<open>json.loads\<close> (\<open>Inl JSONDecodeError\<close> on
  text that is not JSON), TextBlob's polarity and subjectivity, and \<open>re.search\<close>.
  \<open>parsed_result\<close> is the JSON object of a response, with the four keys the code reads
  by \<open>.get\<close>; a key the object lacks is \<open>None\<close>.
\<close>

record parsed_result =
  p_polarity :: "rat option"
  p_sentiment :: "string option"
  p_confidence :: "rat option"
  p_reasoning :: "string option"

record environment =
  OPENAI_API_KEY :: "string option"
  crew_kickoff :: "string \<Rightarrow> py_exn + string"
  json_loads :: "string \<Rightarrow> py_exn + parsed_result"
  textblob_sentiment :: "string \<Rightarrow> rat \<times> rat"
  regex_search :: "string \<Rightarrow> string \<Rightarrow> bool"

text \<open>\<open>str.strip\<close>, \<open>str.find\<close>, \<open>str.rfind\<close> and slicing \<open>s[i:j]\<close>.\<close>

definition is_space :: "char \<Rightarrow> bool" where
  "is_space c = (let n = (of_char c :: nat) in (9 \<le> n \<and> n \<le> 13) \<or> (28 \<le> n \<and> n \<le> 32))"

definition strip :: "string \<Rightarrow> string" where
  "strip s = rev (dropWhile is_space (rev (dropWhile is_space s)))"

fun find_from :: "char \<Rightarrow> string \<Rightarrow> int \<Rightarrow> int" where
  "find_from c [] i = - 1"
| "find_from c (x # xs) i = (if x = c then i else find_from c xs (i + 1))"

definition py_find :: "char \<Rightarrow> string \<Rightarrow> int" where
  "py_find c s = find_from c s 0"

fun rfind_from :: "char \<Rightarrow> string \<Rightarrow> int \<Rightarrow> int \<Rightarrow> int" where
  "rfind_from c [] i found = found"
| "rfind_from c (x # xs) i found = rfind_from c xs (i + 1) (if x = c then i else found)"

definition py_rfind :: "char \<Rightarrow> string \<Rightarrow> int" where
  "py_rfind c s = rfind_from c s 0 (- 1)"

definition slice_index :: "string \<Rightarrow> int \<Rightarrow> nat" where
  "slice_index s k =
     (if k < 0 then nat (max 0 (k + int (length s))) else min (nat k) (length s))"

definition py_slice :: "string \<Rightarrow> int \<Rightarrow> int \<Rightarrow> string" where
  "py_slice s i j = take (slice_index s j - slice_index s i) (drop (slice_index s i) s)"

text \<open>
  The body of the outer \<open>try\<close> of \<open>_analyze_sentiment_with_openai\<close>. The inner handler
  takes \<open>json.JSONDecodeError\<close> only, after which control reaches \<open>return None\<close>; any other
  exception leaves the body.
\<close>

definition analyze_sentiment_with_openai_try ::
  "environment \<Rightarrow> string \<Rightarrow> py_exn + sentiment_result option"
where
  "analyze_sentiment_with_openai_try env text =
     (case crew_kickoff env text of
        Inl e \<Rightarrow> Inl e
      | Inr result \<Rightarrow>
          let result_text = strip result;
              start_idx = py_find CHR ''{'' result_text;
              end_idx = py_rfind CHR ''}'' result_text + 1
          in if start_idx \<noteq> - 1 \<and> end_idx \<noteq> - 1 then
               (let json_str = py_slice result_text start_idx end_idx
                in case json_loads env json_str of
                     Inl JSONDecodeError \<Rightarrow> Inr None
                   | Inl e \<Rightarrow> Inl e
                   | Inr parsed \<Rightarrow>
                       Inr (Some
                         \<lparr>polarity = (case p_polarity parsed of None \<Rightarrow> 0 | Some v \<Rightarrow> v),
                          subjectivity = 8 / 10,
                          sentiment_label =
                            (case p_sentiment parsed of None \<Rightarrow> ''neutral'' | Some v \<Rightarrow> v),
                          base_polarity = None,
                          confidence =
                            Some (case p_confidence parsed of None \<Rightarrow> 8 / 10 | Some v \<Rightarrow> v),
                          reasoning =
                            Some (case p_reasoning parsed of None \<Rightarrow> [] | Some v \<Rightarrow> v),
                          method = ''openai_crewai''\<rparr>))
             else Inr None)"

text \<open>The outer handler, \<open>except Exception\<close>, then \<open>return None\<close>.\<close>

definition analyze_sentiment_with_openai ::
  "environment \<Rightarrow> string \<Rightarrow> py_exn + sentiment_result option"
where
  "analyze_sentiment_with_openai env text =
     (case analyze_sentiment_with_openai_try env text of
        Inl e \<Rightarrow> Inr None
      | Inr r \<Rightarrow> Inr r)"

text \<open>The rule-based part of \<open>analyze_sentiment\<close>, "Fallback to enhanced TextBlob analysis".\<close>

definition textblob_enhanced :: "environment \<Rightarrow> string \<Rightarrow> sentiment_result" where
  "textblob_enhanced env text =
     (let blob = textblob_sentiment env text;
          base_polarity' = fst blob;
          adjusted_polarity = apply_context_adjustments (regex_search env) text base_polarity'
      in \<lparr>polarity = adjusted_polarity,
          subjectivity = snd blob,
          sentiment_label = get_sentiment_label adjusted_polarity,
          base_polarity = Some base_polarity',
          confidence = None,
          reasoning = None,
          method = ''textblob_enhanced''\<rparr>)"

text \<open>
  \<open>if os.getenv("OPENAI_API_KEY")\<close> holds for a variable that is set and not empty. The
  \<open>try\<close> around the call takes any exception of it; \<open>if openai_result\<close> holds for the dict
  (it is never empty) and fails for \<open>None\<close>.
\<close>

definition analyze_sentiment :: "environment \<Rightarrow> string \<Rightarrow> py_exn + sentiment_result" where
  "analyze_sentiment env text =
     (if OPENAI_API_KEY env \<noteq> None \<and> OPENAI_API_KEY env \<noteq> Some [] then
        (case analyze_sentiment_with_openai env text of
           Inl e \<Rightarrow> Inr (textblob_enhanced env text)
         | Inr None \<Rightarrow> Inr (textblob_enhanced env text)
         | Inr (Some openai_result) \<Rightarrow> Inr openai_result)
      else Inr (textblob_enhanced env text))"

text \<open>
  The ways the external path fails: no key configured, an exception while the crew is
  built or run, a response with no opening brace, or a response whose braces do not
  hold JSON (or any other exception of the parser).
\<close>

definition external_path_fails :: "environment \<Rightarrow> string \<Rightarrow> bool" where
  "external_path_fails env text =
     (OPENAI_API_KEY env = None \<or> OPENAI_API_KEY env = Some [] \<or>
      (case crew_kickoff env text of
         Inl e \<Rightarrow> True
       | Inr result \<Rightarrow>
           py_find CHR ''{'' (strip result) = - 1 \<or>
           isl (json_loads env
                  (py_slice (strip result) (py_find CHR ''{'' (strip result))
                     (py_rfind CHR ''}'' (strip result) + 1)))))"


section \<open>Mention classification (\<open>app/core/mention_service.py\<close>)\<close>

definition critical_keywords :: "string list" where
  "critical_keywords =
     [''terrible'', ''worst'', ''awful'', ''broken'', ''crash'', ''bug'', ''error'',
      ''scam'', ''fraud'', ''stealing'', ''illegal'', ''lawsuit'', ''refund'',
      ''money back'', ''cancel subscription'', ''hate'', ''disgusting'']"

definition high_keywords :: "string list" where
  "high_keywords =
     [''problem'', ''issue'', ''complaint'', ''disappointed'', ''frustrated'',
      ''not working'', ''doesn'' @ [CHR 0x27] @ ''t work'', ''failed'', ''slow'', ''lag'']"

text \<open>
  \<open>_determine_priority\<close>. \<open>sentiment.get("confidence", 0)\<close> is 0 for the rule-based result,
  which has no such key.
\<close>

definition determine_priority :: "sentiment_result \<Rightarrow> intent_result \<Rightarrow> string \<Rightarrow> string" where
  "determine_priority sentiment' intent' content =
     (let content_lower = lower content;
          sentiment_confidence = (case confidence sentiment' of None \<Rightarrow> 0 | Some c \<Rightarrow> c)
      in if (sentiment_label sentiment' = ''negative'' \<and> sentiment_confidence > 8 / 10) \<or>
            (i_intent intent' = ''complaint'' \<and> i_confidence intent' > 8 / 10) \<or>
            any_in critical_keywords content_lower
         then ''critical''
         else if (sentiment_label sentiment' = ''negative'' \<and> sentiment_confidence > 6 / 10) \<or>
                 i_intent intent' = ''complaint'' \<or>
                 any_in high_keywords content_lower
         then ''high''
         else if i_intent intent' = ''question'' \<or> sentiment_label sentiment' = ''neutral''
         then ''medium''
         else ''low'')"

definition product_keywords :: "string list" where
  "product_keywords =
     [''app'', ''service'', ''price'', ''cost'', ''payment'', ''billing'', ''subscription'',
      ''feature'', ''update'', ''interface'', ''design'', ''bug'', ''crash'', ''slow'',
      ''fast'', ''easy'', ''difficult'', ''customer service'', ''support'', ''help'']"

fun found_keywords_loop :: "string list \<Rightarrow> string \<Rightarrow> string list \<Rightarrow> string list" where
  "found_keywords_loop [] content_lower found_keywords = found_keywords"
| "found_keywords_loop (keyword # rest) content_lower found_keywords =
     found_keywords_loop rest content_lower
       (if sublist keyword content_lower then found_keywords @ [keyword] else found_keywords)"

definition extract_keywords :: "string \<Rightarrow> string list" where
  "extract_keywords content =
     take 10 (found_keywords_loop product_keywords (lower content) [])"

definition topic_keywords :: "(string \<times> string list) list" where
  "topic_keywords =
     [(''performance'', [''slow'', ''fast'', ''lag'', ''speed'', ''performance'', ''quick'']),
      (''usability'',
       [''easy'', ''difficult'', ''confusing'', ''simple'', ''user-friendly'', ''interface'']),
      (''pricing'',
       [''expensive'', ''cheap'', ''cost'', ''price'', ''money'', ''billing'', ''subscription'']),
      (''features'', [''feature'', ''function'', ''capability'', ''option'', ''tool'']),
      (''bugs'', [''bug'', ''error'', ''crash'', ''broken'', ''glitch'', ''issue'']),
      (''customer_service'',
       [''support'', ''help'', ''service'', ''staff'', ''team'', ''representative'']),
      (''design'', [''design'', ''look'', ''appearance'', ''ui'', ''layout'', ''visual''])]"

fun identified_topics_loop ::
  "(string \<times> string list) list \<Rightarrow> string \<Rightarrow> string list \<Rightarrow> string list"
where
  "identified_topics_loop [] content_lower identified_topics = identified_topics"
| "identified_topics_loop ((topic, keywords) # rest) content_lower identified_topics =
     identified_topics_loop rest content_lower
       (if any_in keywords content_lower then identified_topics @ [topic]
        else identified_topics)"

definition extract_topics :: "string \<Rightarrow> string list" where
  "extract_topics content = identified_topics_loop topic_keywords (lower content) []"


section \<open>Crisis detection (\<open>app/core/analysis_service.py\<close>, \<open>detect_crisis_signals\<close>)\<close>

text \<open>
  A review is a dict. \<open>review.get(key, default)\<close> gives the default only when the key is
  absent; a key that is present with the value \<open>None\<close> gives \<open>None\<close> (the Reddit scraper
  stores \<open>'title': None\<close> for a comment), and \<open>str + None\<close> raises \<open>TypeError\<close>.
\<close>

datatype py_value = PyNone | PyStr string

record review =
  r_content :: "py_value option"
  r_title :: "py_value option"
  r_id :: "string option"
  r_platform :: "string option"

record affected_review =
  ar_review_id :: string
  ar_content_snippet :: string
  ar_category :: string
  ar_keyword :: string
  ar_platform :: string

record alert =
  alert_category :: string
  alert_severity :: string
  alert_count :: nat
  alert_message :: string

text \<open>
  The dict returned. For an empty list of reviews it has the three keys \<open>alerts\<close>,
  \<open>crisis_level\<close> and \<open>total_signals\<close> only.
\<close>

record crisis_result =
  alerts :: "alert list"
  crisis_level :: string
  total_signals :: nat
  category_breakdown :: "(string \<times> nat) list option"
  affected_reviews :: "affected_review list option"
  recommendation :: "string option"

definition crisis_keywords :: "(string \<times> string list) list" where
  "crisis_keywords =
     [(''technical'', [''crash'', ''not working'', ''broken'', ''down'', ''offline'', ''error'']),
      (''payment'', [''charged'', ''billing'', ''payment'', ''money'', ''refund'', ''overcharge'']),
      (''security'', [''hacked'', ''security'', ''privacy'', ''data breach'', ''stolen'']),
      (''service'', [''rude'', ''unprofessional'', ''terrible service'', ''bad support''])]"

text \<open>\<open>str(count)\<close> inside the f-string of the alert message.\<close>

function str_of_nat :: "nat \<Rightarrow> string" where
  "str_of_nat n =
     (if n < 10 then [''0123456789'' ! n]
      else str_of_nat (n div 10) @ [''0123456789'' ! (n mod 10)])"
  by pat_completeness auto
termination
  by (relation "measure id") auto

declare str_of_nat.simps [simp del]

text \<open>\<open>(review.get('content', '') + ' ' + review.get('title', '')).lower()\<close>\<close>

definition review_content :: "review \<Rightarrow> py_exn + string" where
  "review_content r =
     (case (case r_content r of None \<Rightarrow> PyStr [] | Some v \<Rightarrow> v) of
        PyNone \<Rightarrow> Inl TypeError
      | PyStr c \<Rightarrow>
          (case (case r_title r of None \<Rightarrow> PyStr [] | Some v \<Rightarrow> v) of
             PyNone \<Rightarrow> Inl TypeError
           | PyStr t \<Rightarrow> Inr (lower (c @ '' '' @ t))))"

text \<open>The innermost loop, left by \<open>break\<close> at the first keyword found.\<close>

fun first_keyword_in :: "string list \<Rightarrow> string \<Rightarrow> string option" where
  "first_keyword_in [] content' = None"
| "first_keyword_in (keyword # rest) content' =
     (if sublist keyword content' then Some keyword else first_keyword_in rest content')"

text \<open>
  \<open>crisis_signals[category] += 1\<close> on a \<open>defaultdict(int)\<close>: a new key is appended with
  count 1, a present key is counted up in place.
\<close>

fun increment :: "string \<Rightarrow> (string \<times> nat) list \<Rightarrow> (string \<times> nat) list" where
  "increment k [] = [(k, 1)]"
| "increment k ((k', n) # rest) =
     (if k' = k then (k', n + 1) # rest else (k', n) # increment k rest)"

text \<open>
  The loop over the categories for one review; the state is
  \<open>(crisis_signals, affected_reviews)\<close>.
\<close>

fun scan_categories ::
  "(string \<times> string list) list \<Rightarrow> review \<Rightarrow> string \<Rightarrow>
   (string \<times> nat) list \<times> affected_review list \<Rightarrow>
   (string \<times> nat) list \<times> affected_review list"
where
  "scan_categories [] r content' st = st"
| "scan_categories ((category, keywords) # rest) r content' st =
     scan_categories rest r content'
       (case first_keyword_in keywords content' of
          None \<Rightarrow> st
        | Some keyword \<Rightarrow>
            (increment category (fst st),
             snd st @
               [\<lparr>ar_review_id = (case r_id r of None \<Rightarrow> ''unknown'' | Some i \<Rightarrow> i),
                 ar_content_snippet = take 100 content' @ ''...'',
                 ar_category = category,
                 ar_keyword = keyword,
                 ar_platform = (case r_platform r of None \<Rightarrow> ''unknown'' | Some p \<Rightarrow> p)\<rparr>]))"

text \<open>The loop over the reviews; an exception ends it.\<close>

fun scan_reviews ::
  "review list \<Rightarrow> (string \<times> nat) list \<times> affected_review list \<Rightarrow>
   py_exn + (string \<times> nat) list \<times> affected_review list"
where
  "scan_reviews [] st = Inr st"
| "scan_reviews (r # rest) st =
     (case review_content r of
        Inl e \<Rightarrow> Inl e
      | Inr content' \<Rightarrow> scan_reviews rest (scan_categories crisis_keywords r content' st))"

definition get_crisis_recommendation :: "string \<Rightarrow> alert list \<Rightarrow> string" where
  "get_crisis_recommendation crisis_level' alerts' =
     (if crisis_level' = ''critical'' then
        ''IMMEDIATE ACTION REQUIRED: Contact crisis management team and prepare public statement''
      else if crisis_level' = ''high'' then
        ''URGENT: Escalate to management and prepare response strategy''
      else if crisis_level' = ''medium'' then
        ''MONITOR CLOSELY: Increase response frequency and track trends''
      else ''NORMAL: Continue standard monitoring and response procedures'')"

text \<open>The loop over \<open>crisis_signals.items()\<close> that builds the alerts.\<close>

fun alerts_loop :: "(string \<times> nat) list \<Rightarrow> alert list \<Rightarrow> alert list" where
  "alerts_loop [] als = als"
| "alerts_loop ((category, n) # rest) als =
     alerts_loop rest
       (if n \<ge> 2 then
          als @
            [\<lparr>alert_category = category,
              alert_severity = (if n \<ge> 5 then ''high'' else ''medium''),
              alert_count = n,
              alert_message =
                ''Spike detected in '' @ category @ '' issues: '' @ str_of_nat n
                  @ '' mentions in recent reviews''\<rparr>]
        else als)"

definition detect_crisis_signals :: "review list \<Rightarrow> py_exn + crisis_result" where
  "detect_crisis_signals reviews =
     (if reviews = [] then
        Inr \<lparr>alerts = [], crisis_level = ''none'', total_signals = 0,
             category_breakdown = None, affected_reviews = None, recommendation = None\<rparr>
      else
        case scan_reviews reviews ([], []) of
          Inl e \<Rightarrow> Inl e
        | Inr st \<Rightarrow>
            let crisis_signals = fst st;
                affected_reviews' = snd st;
                total_signals' = sum_list (map snd crisis_signals);
                crisis_level' =
                  (if total_signals' \<ge> 10 then ''critical''
                   else if total_signals' \<ge> 5 then ''high''
                   else if total_signals' \<ge> 2 then ''medium''
                   else ''low'');
                alerts' = alerts_loop crisis_signals []
            in Inr \<lparr>alerts = alerts', crisis_level = crisis_level',
                    total_signals = total_signals',
                    category_breakdown = Some crisis_signals,
                    affected_reviews = Some (take 5 affected_reviews'),
                    recommendation = Some (get_crisis_recommendation crisis_level' alerts')\<rparr>)"

subsection \<open>Signal counts as the specification words them\<close>

text \<open>
  A review is well formed when neither its content nor its title is \<open>None\<close>. The text
  scanned is then the content, a space and the title, in small letters; an absent key
  contributes the empty string.
\<close>

definition well_formed :: "review \<Rightarrow> bool" where
  "well_formed r = (r_content r \<noteq> Some PyNone \<and> r_title r \<noteq> Some PyNone)"

definition field_text :: "py_value option \<Rightarrow> string" where
  "field_text v = (case v of Some (PyStr s) \<Rightarrow> s | _ \<Rightarrow> [])"

definition review_text :: "review \<Rightarrow> string" where
  "review_text r = lower (field_text (r_content r) @ '' '' @ field_text (r_title r))"

text \<open>The signal count of a category: the reviews whose text holds one of its keywords.\<close>

definition signal_count :: "string list \<Rightarrow> review list \<Rightarrow> nat" where
  "signal_count keywords reviews =
     length (filter (\<lambda>r. any_in keywords (review_text r)) reviews)"

text \<open>The number of categories of which a review holds a keyword.\<close>

definition categories_hit :: "review \<Rightarrow> nat" where
  "categories_hit r =
     length (filter (\<lambda>ck. any_in (snd ck) (review_text r)) crisis_keywords)"

definition count_of :: "(string \<times> nat) list \<Rightarrow> string \<Rightarrow> nat" where
  "count_of d k = (case map_of d k of None \<Rightarrow> 0 | Some n \<Rightarrow> n)"

text \<open>
  Whether a text holds a keyword of the category named \<open>c\<close>: the number of entries of the
  table with that name and such a keyword (0 or 1, the names being distinct).
\<close>

definition hits :: "(string \<times> string list) list \<Rightarrow> string \<Rightarrow> string \<Rightarrow> nat" where
  "hits cats c t = length (filter (\<lambda>ck. fst ck = c \<and> any_in (snd ck) t) cats)"

text \<open>The alert of a category with its count.\<close>

definition alert_for :: "string \<times> nat \<Rightarrow> alert" where
  "alert_for cn =
     \<lparr>alert_category = fst cn,
      alert_severity = (if snd cn \<ge> 5 then ''high'' else ''medium''),
      alert_count = snd cn,
      alert_message =
        ''Spike detected in '' @ fst cn @ '' issues: '' @ str_of_nat (snd cn)
          @ '' mentions in recent reviews''\<rparr>"

definition level_of :: "nat \<Rightarrow> string" where
  "level_of n =
     (if 10 \<le> n then ''critical''
      else if 5 \<le> n then ''high''
      else if 2 \<le> n then ''medium''
      else ''low'')"


section \<open>Theorems\<close>

subsection \<open>Double-precision rounding\<close>

lemma round_half_even_near:
  "\<bar>of_int (round_half_even y) - y\<bar> \<le> 1 / 2"
proof -
  have "of_int \<lfloor>y\<rfloor> \<le> y" "y < of_int \<lfloor>y\<rfloor> + 1" by linarith+
  then show ?thesis
    by (auto simp: round_half_even_def Let_def)
qed

lemma binade_lower:
  assumes "x \<noteq> 0"
  shows "2 powi (binade x) \<le> \<bar>x\<bar>"
proof -
  obtain a b where ab: "quotient_of \<bar>x\<bar> = (a, b)" by (cases "quotient_of \<bar>x\<bar>")
  have bpos: "0 < b" using ab by (rule quotient_of_denom_pos)
  have xv: "\<bar>x\<bar> = of_int a / of_int b" using ab by (rule quotient_of_div)
  have "0 < \<bar>x\<bar>" using assms by simp
  then have apos: "0 < a" using xv bpos by (simp add: zero_less_divide_iff)
  let ?e0 = "bitlen a - bitlen b"
  have la: "(2::int) ^ nat (bitlen a - 1) \<le> a" using bitlen_bounds [OF apos] by simp
  have ub: "b < (2::int) ^ nat (bitlen b)" using bitlen_bounds [OF bpos] by simp
  have ba: "1 \<le> bitlen a" using apos by (simp add: bitlen_alt_def)
  have bb: "0 \<le> bitlen b" by (rule bitlen_nonneg)
  have la': "(2::rat) powi (bitlen a - 1) \<le> of_int a"
  proof -
    have "(of_int ((2::int) ^ nat (bitlen a - 1)) :: rat) \<le> of_int a"
      using la by (simp only: of_int_le_iff)
    then show ?thesis using ba by (simp add: power_int_def)
  qed
  have ub': "(of_int b :: rat) \<le> 2 powi (bitlen b)"
  proof -
    have "b \<le> (2::int) ^ nat (bitlen b)" using ub by simp
    then have "(of_int b :: rat) \<le> of_int ((2::int) ^ nat (bitlen b))"
      by (simp only: of_int_le_iff)
    then show ?thesis using bb by (simp add: power_int_def)
  qed
  have low: "(2::rat) powi (?e0 - 1) \<le> \<bar>x\<bar>"
  proof -
    have "(2::rat) powi (?e0 - 1) = 2 powi (bitlen a - 1) / 2 powi (bitlen b)"
      by (simp add: power_int_diff)
    also have "\<dots> \<le> of_int a / 2 powi (bitlen b)"
      using la' by (simp add: divide_right_mono)
    also have "\<dots> \<le> of_int a / of_int b"
      using ub' bpos apos by (simp add: frac_le)
    finally show ?thesis using xv by simp
  qed
  show ?thesis
    using low by (simp add: binade_def ab Let_def)
qed

lemma fl_error: "\<bar>fl x - x\<bar> \<le> \<bar>x\<bar> / 2 ^ 53"
proof (cases "x = 0")
  case True
  then show ?thesis by (simp add: fl_def)
next
  case False
  define q :: rat where "q = 2 powi (binade x - 52)"
  have qpos: "0 < q" by (simp add: q_def)
  have q2: "q * 2 ^ 52 = 2 powi (binade x)"
    by (simp add: q_def power_int_diff)
  define R :: rat where "R = of_int (round_half_even (x / q))"
  have r: "\<bar>R - x / q\<bar> \<le> 1 / 2"
    unfolding R_def by (rule round_half_even_near)
  have m: "\<bar>R - x / q\<bar> * q \<le> 1 / 2 * q"
    using r qpos by (intro mult_right_mono) simp_all
  have "(R - x / q) * q = R * q - x"
    using qpos by (simp add: algebra_simps)
  then have "\<bar>R * q - x\<bar> = \<bar>R - x / q\<bar> * \<bar>q\<bar>"
    by (metis abs_mult)
  then have a: "\<bar>R * q - x\<bar> = \<bar>R - x / q\<bar> * q"
    using qpos by simp
  have flx: "fl x = R * q"
    using False by (simp add: fl_def q_def R_def Let_def)
  have e: "\<bar>fl x - x\<bar> \<le> q / 2"
    unfolding flx a using m by simp
  have "q * 2 ^ 52 \<le> \<bar>x\<bar>" unfolding q2 using False by (rule binade_lower)
  then have "q / 2 \<le> \<bar>x\<bar> / 2 ^ 53" by (simp add: field_simps)
  then show ?thesis using e by linarith
qed

lemma fl_zero: "fl 0 = 0" by (simp add: fl_def)

lemma fl_pos:
  assumes "0 < x"
  shows "x * (1 - 1 / 2 ^ 53) \<le> fl x" and "fl x \<le> x * (1 + 1 / 2 ^ 53)" and "0 < fl x"
proof -
  have n: "(2::rat) ^ 53 = 9007199254740992" by simp
  have e: "\<bar>fl x - x\<bar> \<le> x / 9007199254740992"
    using fl_error [of x] assms unfolding n by simp
  have a: "x * (1 - 1 / 9007199254740992) = x - x / 9007199254740992"
    by (simp add: algebra_simps)
  have b: "x * (1 + 1 / 9007199254740992) = x + x / 9007199254740992"
    by (simp add: algebra_simps)
  show "x * (1 - 1 / 2 ^ 53) \<le> fl x" unfolding n a using e by linarith
  show "fl x \<le> x * (1 + 1 / 2 ^ 53)" unfolding n b using e by linarith
  show "0 < fl x" using e assms by linarith
qed

lemma fl_consts: "fl 1 = 1" "fl 100 = 100" "fl (- 100) = - 100" "fl 30 = 30"
  by code_simp+

lemma fl_thirds: "fl (1 / 3) \<le> 1" "fl (2 / 3) \<le> 1"
  by code_simp+

subsection \<open>Reputation score\<close>

lemma score_step_eq:
  "score_step m acc =
     (fst acc + mention_weight confidence_or_half m,
      snd acc + sentiment_value m * mention_weight confidence_or_half m)"
  by (simp add: score_step_def mention_weight_def confidence_or_half_def sentiment_value_def
      priority_weight_def intent_modifier_def Let_def)

lemma score_loop_sums:
  "score_loop ms acc =
     (fst acc + total_weight_of confidence_or_half ms,
      snd acc + weighted_sum_of confidence_or_half ms)"
proof (induction ms arbitrary: acc)
  case Nil
  show ?case by (simp add: total_weight_of_def weighted_sum_of_def)
next
  case (Cons m ms)
  show ?case
    by (simp add: Cons.IH score_step_eq total_weight_of_def weighted_sum_of_def add.assoc)
qed

lemma priority_weight_pos: "1 \<le> priority_weight m"
  by (simp add: priority_weight_def)

lemma intent_modifier_pos: "1 \<le> intent_modifier m"
  by (simp add: intent_modifier_def)

lemma confidence_or_half_pos: "confidence_nonneg m \<Longrightarrow> 0 < confidence_or_half m"
  by (auto simp: confidence_nonneg_def confidence_or_half_def split: option.splits)

lemma mention_weight_pos:
  assumes "confidence_nonneg m"
  shows "0 < mention_weight confidence_or_half m"
proof -
  have "0 < priority_weight m" using priority_weight_pos [of m] by linarith
  moreover have "0 < intent_modifier m" using intent_modifier_pos [of m] by linarith
  ultimately show ?thesis
    using confidence_or_half_pos [OF assms] by (simp add: mention_weight_def)
qed

lemma sentiment_value_range: "20 \<le> sentiment_value m \<and> sentiment_value m \<le> 80"
  by (simp add: sentiment_value_def)

lemma total_weight_pos:
  "ms \<noteq> [] \<Longrightarrow> \<forall>m\<in>set ms. confidence_nonneg m \<Longrightarrow> 0 < total_weight_of confidence_or_half ms"
proof (induction ms)
  case Nil
  then show ?case by simp
next
  case (Cons m ms)
  have w: "0 < mention_weight confidence_or_half m"
    using Cons.prems(2) by (simp add: mention_weight_pos)
  show ?case
  proof (cases "ms = []")
    case True
    then show ?thesis using w by (simp add: total_weight_of_def)
  next
    case False
    then have "0 < total_weight_of confidence_or_half ms"
      using Cons.IH Cons.prems(2) by simp
    then show ?thesis using w by (simp add: total_weight_of_def)
  qed
qed

lemma calculate_reputation_score_unfold:
  "ms \<noteq> [] \<Longrightarrow>
   calculate_reputation_score ms =
     (if 0 < total_weight_of confidence_or_half ms
      then clamp_0_100 (weighted_average confidence_or_half ms) else 50)"
  by (simp add: calculate_reputation_score_def score_loop_sums Let_def clamp_0_100_def
      weighted_average_def)

lemma no_zero_same_weight:
  "confidence_score m \<noteq> Some 0 \<Longrightarrow> confidence_or_half m = confidence_when_absent m"
  by (simp add: confidence_or_half_def confidence_when_absent_def split: option.splits)

lemma no_zero_same_average:
  assumes "\<forall>m\<in>set ms. confidence_score m \<noteq> Some 0"
  shows "weighted_average confidence_or_half ms = weighted_average confidence_when_absent ms"
proof -
  have w: "mention_weight confidence_or_half m = mention_weight confidence_when_absent m"
    if "m \<in> set ms" for m
    using that assms by (simp add: mention_weight_def no_zero_same_weight)
  have a: "map (mention_weight confidence_or_half) ms
             = map (mention_weight confidence_when_absent) ms"
    using w by simp
  have b: "map (\<lambda>m. sentiment_value m * mention_weight confidence_or_half m) ms
             = map (\<lambda>m. sentiment_value m * mention_weight confidence_when_absent m) ms"
    using w by simp
  show ?thesis
    unfolding weighted_average_def total_weight_of_def weighted_sum_of_def
    by (simp only: a b)
qed


text \<open>
  C1 (as amended). For every non-empty list of mentions the score is the weighted average
  \<open>\<Sum>(sentimentValue \<times> weight) / \<Sum>(weight)\<close> clamped to \<open>[0,100]\<close>, where the weight is
  priority weight times intent modifier times the confidence factor, and the confidence
  factor is the stored score, or 0.5 when the score is absent or zero. The average is
  taken when the total weight is positive (it is whenever no stored confidence is
  negative); otherwise the score is 50. Where no stored confidence is zero, this is the
  average with the confidence factor "0.5 when absent" that the claim words.
\<close>

theorem reputation_score_weighted_average:
  assumes "mentions \<noteq> []"
  shows "calculate_reputation_score mentions =
           (if 0 < total_weight_of confidence_or_half mentions
            then clamp_0_100 (weighted_average confidence_or_half mentions) else 50)
         \<and> ((\<forall>m\<in>set mentions. confidence_nonneg m) \<longrightarrow>
              calculate_reputation_score mentions =
                clamp_0_100 (weighted_average confidence_or_half mentions))
         \<and> ((\<forall>m\<in>set mentions. confidence_nonneg m \<and> confidence_score m \<noteq> Some 0) \<longrightarrow>
              calculate_reputation_score mentions =
                clamp_0_100 (weighted_average confidence_when_absent mentions))"
proof -
  have 1: "calculate_reputation_score mentions =
           (if 0 < total_weight_of confidence_or_half mentions
            then clamp_0_100 (weighted_average confidence_or_half mentions) else 50)"
    using assms by (rule calculate_reputation_score_unfold)
  have 2: "(\<forall>m\<in>set mentions. confidence_nonneg m) \<longrightarrow>
           calculate_reputation_score mentions =
             clamp_0_100 (weighted_average confidence_or_half mentions)"
    using 1 total_weight_pos [OF assms] by simp
  have 3: "(\<forall>m\<in>set mentions. confidence_nonneg m \<and> confidence_score m \<noteq> Some 0) \<longrightarrow>
           calculate_reputation_score mentions =
             clamp_0_100 (weighted_average confidence_when_absent mentions)"
    using 2 no_zero_same_average [of mentions] by auto
  from 1 2 3 show ?thesis by blast
qed

text \<open>
  An instance: one positive critical complaint stored with confidence 1 and one negative
  question of low priority with no stored confidence score 980/13, about 75.4.
\<close>

theorem reputation_score_weighted_average_witness:
  "calculate_reputation_score
     [\<lparr>sentiment = Some ''positive'', priority = Some ''critical'',
       intent = Some ''complaint'', confidence_score = Some 1\<rparr>,
      \<lparr>sentiment = Some ''negative'', priority = Some ''low'',
       intent = Some ''question'', confidence_score = None\<rparr>] = 980 / 13"
proof -
  let ?ms = "[\<lparr>sentiment = Some ''positive'', priority = Some ''critical'',
       intent = Some ''complaint'', confidence_score = Some 1\<rparr>,
      \<lparr>sentiment = Some ''negative'', priority = Some ''low'',
       intent = Some ''question'', confidence_score = None\<rparr>]"
  have ne: "?ms \<noteq> []" by simp
  have ok: "\<forall>m\<in>set ?ms. confidence_nonneg m \<and> confidence_score m \<noteq> Some 0"
    by (simp add: confidence_nonneg_def)
  have "calculate_reputation_score ?ms = clamp_0_100 (weighted_average confidence_when_absent ?ms)"
    using reputation_score_weighted_average [OF ne] ok by blast
  also have "\<dots> = 980 / 13"
    by (simp add: clamp_0_100_def weighted_average_def weighted_sum_of_def total_weight_of_def
        mention_weight_def sentiment_value_def priority_weight_def intent_modifier_def
        confidence_when_absent_def)
  finally show ?thesis .
qed

text \<open>
  The claim as worded fails at a stored confidence of zero (the parsers create mentions
  with \<open>confidence_score=0.0\<close>): the code weighs the first mention with 0.5 and returns 40,
  the claimed formula weighs it with 0 and gives 20.
\<close>

theorem reputation_score_zero_confidence_counterexample:
  "calculate_reputation_score
     [\<lparr>sentiment = Some ''positive'', priority = Some ''low'',
       intent = Some ''neutral_mention'', confidence_score = Some 0\<rparr>,
      \<lparr>sentiment = Some ''negative'', priority = Some ''low'',
       intent = Some ''neutral_mention'', confidence_score = Some 1\<rparr>] = 40
   \<and> clamp_0_100 (weighted_average confidence_when_absent
     [\<lparr>sentiment = Some ''positive'', priority = Some ''low'',
       intent = Some ''neutral_mention'', confidence_score = Some 0\<rparr>,
      \<lparr>sentiment = Some ''negative'', priority = Some ''low'',
       intent = Some ''neutral_mention'', confidence_score = Some 1\<rparr>]) = 20"
  by (simp add: calculate_reputation_score_def score_step_def Let_def
      clamp_0_100_def weighted_average_def weighted_sum_of_def total_weight_of_def
      mention_weight_def sentiment_value_def priority_weight_def intent_modifier_def
      confidence_when_absent_def)

lemma step_upper:
  fixes tw w ws t H tw' ws' u :: rat
  assumes u: "0 \<le> u" "u < 1"
    and "0 \<le> tw" "0 \<le> w" "ws \<le> H * tw" "t \<le> B * w" "B \<le> H" "0 \<le> H"
    and "ws' \<le> (ws + t) * (1 + u)" "(tw + w) * (1 - u) \<le> tw'"
  shows "ws' \<le> (H * ((1 + u) / (1 - u))) * tw'"
proof -
  have "B * w \<le> H * w" using assms(4,7) by (simp add: mult_right_mono)
  then have "ws + t \<le> H * tw + H * w" using assms(5,6) by linarith
  then have a: "ws + t \<le> H * (tw + w)" by (simp add: algebra_simps)
  have "(ws + t) * (1 + u) \<le> (H * (tw + w)) * (1 + u)"
    using a u(1) by (intro mult_right_mono) simp_all
  then have b: "ws' \<le> (H * (tw + w)) * (1 + u)" using assms(9) by linarith
  have c0: "0 \<le> H * ((1 + u) / (1 - u))" using assms(8) u by simp
  have "(H * ((1 + u) / (1 - u))) * ((tw + w) * (1 - u)) \<le> (H * ((1 + u) / (1 - u))) * tw'"
    using c0 assms(10) by (rule mult_left_mono [rotated]) 
  moreover have "(H * ((1 + u) / (1 - u))) * ((tw + w) * (1 - u)) = (H * (tw + w)) * (1 + u)"
    using u by (simp add: field_simps)
  ultimately show ?thesis using b by linarith
qed

lemma step_lower:
  fixes tw w ws t L tw' ws' u :: rat
  assumes u: "0 \<le> u" "u < 1"
    and "0 \<le> tw" "0 \<le> w" "L * tw \<le> ws" "b * w \<le> t" "L \<le> b" "0 \<le> L"
    and "(ws + t) * (1 - u) \<le> ws'" "tw' \<le> (tw + w) * (1 + u)"
  shows "(L / ((1 + u) / (1 - u))) * tw' \<le> ws'"
proof -
  have "L * w \<le> b * w" using assms(4,7) by (simp add: mult_right_mono)
  then have "L * tw + L * w \<le> ws + t" using assms(5,6) by linarith
  then have a: "L * (tw + w) \<le> ws + t" by (simp add: algebra_simps)
  have "(L * (tw + w)) * (1 - u) \<le> (ws + t) * (1 - u)"
    using a u(2) by (intro mult_right_mono) simp_all
  then have b: "(L * (tw + w)) * (1 - u) \<le> ws'" using assms(9) by linarith
  have c0: "0 \<le> L / ((1 + u) / (1 - u))" using assms(8) u by simp
  have "(L / ((1 + u) / (1 - u))) * tw' \<le> (L / ((1 + u) / (1 - u))) * ((tw + w) * (1 + u))"
    using c0 assms(10) by (rule mult_left_mono [rotated])
  moreover have "(L / ((1 + u) / (1 - u))) * ((tw + w) * (1 + u)) = (L * (tw + w)) * (1 - u)"
    using u by (simp add: field_simps)
  ultimately show ?thesis using b by linarith
qed

lemma pow_bound:
  fixes x :: rat
  assumes "0 \<le> x"
  shows "2 * of_nat m * x \<le> 1 \<Longrightarrow> (1 + x) ^ m \<le> 1 + 2 * of_nat m * x"
proof (induction m)
  case 0
  show ?case by simp
next
  case (Suc m)
  have le: "2 * of_nat m * x \<le> 1"
  proof -
    have "2 * of_nat m * x \<le> 2 * of_nat (Suc m) * x"
      using assms by (simp add: mult_right_mono)
    then show ?thesis using Suc.prems by linarith
  qed
  have ih: "(1 + x) ^ m \<le> 1 + 2 * of_nat m * x" using Suc.IH le by simp
  have "(1 + x) ^ Suc m = (1 + x) ^ m * (1 + x)" by simp
  also have "\<dots> \<le> (1 + 2 * of_nat m * x) * (1 + x)"
    using ih assms by (intro mult_right_mono) simp_all
  also have "\<dots> = 1 + 2 * of_nat m * x + x + (2 * of_nat m * x) * x"
    by (simp add: algebra_simps)
  also have "\<dots> \<le> 1 + 2 * of_nat m * x + x + 1 * x"
  proof -
    have "(2 * of_nat m * x) * x \<le> 1 * x" using le assms by (intro mult_right_mono) simp_all
    then show ?thesis by linarith
  qed
  also have "\<dots> = 1 + 2 * of_nat (Suc m) * x" by (simp add: algebra_simps)
  finally show ?case .
qed


lemma score_step_float_eq:
  "score_step_float m acc =
     (fl (fst acc + final_weight_float m),
      fl (snd acc + fl (sentiment_value m * final_weight_float m)))"
  by (simp add: score_step_float_def final_weight_float_def sentiment_value_def Let_def)

lemma final_weight_float_pos:
  assumes "confidence_in_unit m"
  shows "0 < final_weight_float m"
proof -
  define pi where "pi = (if priority m = Some ''critical'' then 3
              else if priority m = Some ''high'' then 2
              else if priority m = Some ''medium'' then 3 / 2 else (1::rat))
             * (if intent m = Some ''complaint'' then 2
                else if intent m = Some ''recommendation'' then 3 / 2 else 1)"
  define cw where "cw = (case confidence_score m of
              None \<Rightarrow> 1 / 2
            | Some c \<Rightarrow> if c = 0 then 1 / 2 else (c::rat))"
  have "0 < pi" by (simp add: pi_def)
  then have p: "0 < fl pi" by (rule fl_pos(3))
  have c: "0 < cw"
    using assms by (auto simp: cw_def confidence_in_unit_def split: option.splits)
  have "0 < fl pi * cw" using p c by simp
  then have "0 < fl (fl pi * cw)" by (rule fl_pos(3))
  then show ?thesis by (simp add: final_weight_float_def pi_def cw_def)
qed

lemma ratio_eq: "rounding_ratio = (1 + 1 / 2 ^ 53) / (1 - 1 / 2 ^ 53)"
  by (simp add: rounding_ratio_def)

lemma ratio_ge_1: "1 \<le> rounding_ratio"
  by (simp add: rounding_ratio_def)

lemma ratio_pos: "0 < rounding_ratio"
  by (simp add: rounding_ratio_def)

lemma step_bounds:
  assumes m: "confidence_in_unit m"
    and tw: "0 \<le> tw" and ws: "0 \<le> ws"
    and up: "ws \<le> H * tw" and lo: "L * tw \<le> ws"
    and H: "80 * (1 + 1 / 2 ^ 53) \<le> H" and L: "0 \<le> L" "L \<le> 20 * (1 - 1 / 2 ^ 53)"
  shows "0 < fst (score_step_float m (tw, ws))"
    and "0 < snd (score_step_float m (tw, ws))"
    and "snd (score_step_float m (tw, ws))
           \<le> (H * rounding_ratio) * fst (score_step_float m (tw, ws))"
    and "(L / rounding_ratio) * fst (score_step_float m (tw, ws))
           \<le> snd (score_step_float m (tw, ws))"
proof -
  define u :: rat where "u = 1 / 2 ^ 53"
  have u: "0 \<le> u" "u < 1" by (simp_all add: u_def)
  define w where "w = final_weight_float m"
  define s where "s = sentiment_value m"
  define t where "t = fl (s * w)"
  define tw' where "tw' = fl (tw + w)"
  define ws' where "ws' = fl (ws + t)"
  have st: "score_step_float m (tw, ws) = (tw', ws')"
    by (simp add: score_step_float_eq tw'_def ws'_def t_def s_def w_def)
  have w: "0 < w" unfolding w_def using m by (rule final_weight_float_pos)
  have s: "20 \<le> s" "s \<le> 80" unfolding s_def using sentiment_value_range by simp_all
  have sw: "0 < s * w" using s w by simp
  have t1: "(s * w) * (1 - u) \<le> t" unfolding t_def u_def using sw by (rule fl_pos(1))
  have t2: "t \<le> (s * w) * (1 + u)" unfolding t_def u_def using sw by (rule fl_pos(2))
  have t0: "0 < t" unfolding t_def using sw by (rule fl_pos(3))
  have x80: "s * w \<le> 80 * w" using s w by (simp add: mult_right_mono)
  have "(s * w) * (1 + u) \<le> (80 * w) * (1 + u)"
    using mult_right_mono [OF x80, of "1 + u"] u by simp
  then have tu: "t \<le> (80 * (1 + u)) * w" using t2 by (simp add: algebra_simps)
  have x20: "20 * w \<le> s * w" using s w by (simp add: mult_right_mono)
  have "(20 * w) * (1 - u) \<le> (s * w) * (1 - u)"
    using mult_right_mono [OF x20, of "1 - u"] u by simp
  then have tl: "(20 * (1 - u)) * w \<le> t" using t1 by (simp add: algebra_simps)
  have twp: "0 < tw + w" using tw w by simp
  have a1: "(tw + w) * (1 - u) \<le> tw'" unfolding tw'_def u_def using twp by (rule fl_pos(1))
  have a2: "tw' \<le> (tw + w) * (1 + u)" unfolding tw'_def u_def using twp by (rule fl_pos(2))
  have a0: "0 < tw'" unfolding tw'_def using twp by (rule fl_pos(3))
  have wsp: "0 < ws + t" using ws t0 by simp
  have b1: "(ws + t) * (1 - u) \<le> ws'" unfolding ws'_def u_def using wsp by (rule fl_pos(1))
  have b2: "ws' \<le> (ws + t) * (1 + u)" unfolding ws'_def u_def using wsp by (rule fl_pos(2))
  have b0: "0 < ws'" unfolding ws'_def using wsp by (rule fl_pos(3))
  have H': "80 * (1 + u) \<le> H" using H by (simp add: u_def)
  have "(0::rat) \<le> 80 * (1 + 1 / 2 ^ 53)" by simp
  then have H0: "0 \<le> H" using H by (rule order_trans)
  have L': "L \<le> 20 * (1 - u)" using L(2) by (simp add: u_def)
  have w0: "0 \<le> w" using w by simp
  have r: "rounding_ratio = (1 + u) / (1 - u)" by (simp add: ratio_eq u_def)
  show "0 < fst (score_step_float m (tw, ws))" using a0 st by simp
  show "0 < snd (score_step_float m (tw, ws))" using b0 st by simp
  show "snd (score_step_float m (tw, ws))
           \<le> (H * rounding_ratio) * fst (score_step_float m (tw, ws))"
    unfolding st r fst_conv snd_conv
    using u tw w0 up tu H' H0 b2 a1 by (rule step_upper)
  show "(L / rounding_ratio) * fst (score_step_float m (tw, ws))
           \<le> snd (score_step_float m (tw, ws))"
    unfolding st r fst_conv snd_conv
    using u tw w0 lo tl L' L(1) b1 a2 by (rule step_lower)
qed

lemma loop_bounds:
  assumes "\<forall>m\<in>set ms. confidence_in_unit m"
    and "0 \<le> tw" and "0 \<le> ws"
    and "ws \<le> H * tw" and "L * tw \<le> ws"
    and "80 * (1 + 1 / 2 ^ 53) \<le> H" and "0 \<le> L" and "L \<le> 20 * (1 - 1 / 2 ^ 53)"
  shows "0 \<le> fst (score_loop_float ms (tw, ws))
     \<and> 0 \<le> snd (score_loop_float ms (tw, ws))
     \<and> snd (score_loop_float ms (tw, ws))
          \<le> (H * rounding_ratio ^ length ms) * fst (score_loop_float ms (tw, ws))
     \<and> (L / rounding_ratio ^ length ms) * fst (score_loop_float ms (tw, ws))
          \<le> snd (score_loop_float ms (tw, ws))
     \<and> (ms \<noteq> [] \<longrightarrow> 0 < fst (score_loop_float ms (tw, ws)))"
  using assms
proof (induction ms arbitrary: tw ws H L)
  case Nil
  then show ?case by simp
next
  case (Cons m ms)
  have m: "confidence_in_unit m" and rest: "\<forall>m\<in>set ms. confidence_in_unit m"
    using Cons.prems(1) by simp_all
  obtain tw1 ws1 where st: "score_step_float m (tw, ws) = (tw1, ws1)"
    by (cases "score_step_float m (tw, ws)")
  note sb = step_bounds [OF m Cons.prems(2-8)]
  have p1: "0 < tw1" using sb(1) st by simp
  have p2: "0 < ws1" using sb(2) st by simp
  have u1: "ws1 \<le> (H * rounding_ratio) * tw1" using sb(3) st by simp
  have l1: "(L / rounding_ratio) * tw1 \<le> ws1" using sb(4) st by simp
  have Hr: "80 * (1 + 1 / 2 ^ 53) \<le> H * rounding_ratio"
  proof -
    have H0: "0 \<le> H" using Cons.prems(6) by simp
    have "H * 1 \<le> H * rounding_ratio" using H0 ratio_ge_1 by (rule mult_left_mono [rotated])
    then have "H \<le> H * rounding_ratio" by simp
    then show ?thesis using Cons.prems(6) by linarith
  qed
  have Lr0: "0 \<le> L / rounding_ratio" using Cons.prems(7) ratio_pos by simp
  have Lr: "L / rounding_ratio \<le> 20 * (1 - 1 / 2 ^ 53)"
  proof -
    have "L / rounding_ratio \<le> L / 1"
      using Cons.prems(7) ratio_ge_1 by (intro divide_left_mono) simp_all
    then have "L / rounding_ratio \<le> L" by simp
    then show ?thesis using Cons.prems(8) by linarith
  qed
  have tw1: "0 \<le> tw1" and ws1: "0 \<le> ws1" using p1 p2 by simp_all
  note ih = Cons.IH [OF rest tw1 ws1 u1 l1 Hr Lr0 Lr]
  have loop: "score_loop_float (m # ms) (tw, ws) = score_loop_float ms (tw1, ws1)"
    using st by simp
  have e1: "H * rounding_ratio * rounding_ratio ^ length ms = H * rounding_ratio ^ length (m # ms)"
    by simp
  have e2: "L / rounding_ratio / rounding_ratio ^ length ms = L / rounding_ratio ^ length (m # ms)"
    by simp
  have pos: "0 < fst (score_loop_float ms (tw1, ws1))"
  proof (cases "ms = []")
    case True
    then show ?thesis using p1 by simp
  next
    case False
    then show ?thesis using ih by blast
  qed
  show ?case unfolding loop using ih pos unfolding e1 e2 by simp
qed

lemma ratio_power_small:
  assumes "n \<le> 2 ^ 32"
  shows "rounding_ratio ^ (n + 2) \<le> 1 + 1 / 10 ^ 5"
proof -
  define x :: rat where "x = 2 / (2 ^ 53 - 1)"
  have x0: "0 \<le> x" by (simp add: x_def)
  have r: "rounding_ratio = 1 + x" by (simp add: rounding_ratio_def x_def)
  have "(of_nat (n + 2) :: rat) \<le> of_nat (2 ^ 32 + 2)"
    using assms by (simp only: of_nat_le_iff)
  then have m: "(of_nat (n + 2) :: rat) \<le> 4294967298" by simp
  have "2 * of_nat (n + 2) * x \<le> 2 * 4294967298 * x"
    using m x0 by (intro mult_right_mono mult_left_mono) simp_all
  also have "\<dots> \<le> 1 / 10 ^ 5" by (simp add: x_def)
  finally have s: "2 * of_nat (n + 2) * x \<le> 1 / 10 ^ 5" .
  then have "2 * of_nat (n + 2) * x \<le> 1" by simp
  then have "(1 + x) ^ (n + 2) \<le> 1 + 2 * of_nat (n + 2) * x"
    using x0 by (rule pow_bound [rotated])
  then show ?thesis unfolding r using s by linarith
qed

lemma float_score_bounds:
  assumes ne: "mentions \<noteq> []" and ok: "\<forall>m\<in>set mentions. confidence_in_unit m"
  shows "0 < fst (score_loop_float mentions (0, 0))"
    and "20 / rounding_ratio ^ (length mentions + 2) \<le> final_score_float mentions"
    and "final_score_float mentions \<le> 80 * rounding_ratio ^ (length mentions + 2)"
proof -
  define u :: rat where "u = 1 / 2 ^ 53"
  have u: "0 \<le> u" "u < 1" by (simp_all add: u_def)
  define n where "n = length mentions"
  define tw where "tw = fst (score_loop_float mentions (0, 0))"
  define ws where "ws = snd (score_loop_float mentions (0, 0))"
  define R where "R = rounding_ratio ^ n"
  have R1: "1 \<le> R" unfolding R_def using ratio_ge_1 by (rule one_le_power)
  have R0: "0 < R" using R1 by linarith
  have rr: "rounding_ratio = (1 + u) / (1 - u)" by (simp add: ratio_eq u_def)
  have r1: "1 + u \<le> rounding_ratio" by (simp add: rounding_ratio_def u_def)
  have r2: "1 / rounding_ratio \<le> 1 - u" by (simp add: rounding_ratio_def u_def)
  have r0: "0 < rounding_ratio" by (rule ratio_pos)
  have lb: "0 \<le> tw \<and> 0 \<le> ws
     \<and> ws \<le> (80 * (1 + u) * R) * tw
     \<and> (20 * (1 - u) / R) * tw \<le> ws
     \<and> (mentions \<noteq> [] \<longrightarrow> 0 < tw)"
    unfolding tw_def ws_def R_def n_def u_def
    by (rule loop_bounds [OF ok]) simp_all
  have tw0: "0 < tw" using lb ne by blast
  show "0 < fst (score_loop_float mentions (0, 0))" using tw0 by (simp add: tw_def)
  define q where "q = ws / tw"
  have qu: "q \<le> 80 * (1 + u) * R"
    unfolding q_def using lb tw0 by (simp add: pos_divide_le_eq)
  have ql: "20 * (1 - u) / R \<le> q"
    unfolding q_def using lb tw0 by (simp add: pos_le_divide_eq)
  have "0 < 20 * (1 - u) / R" using u R0 by simp
  then have q0: "0 < q" using ql by linarith
  have fs: "final_score_float mentions = fl q"
    using tw0 by (simp add: final_score_float_def Let_def tw_def ws_def q_def)
  have f1: "q * (1 - u) \<le> fl q" unfolding u_def using q0 by (rule fl_pos(1))
  have f2: "fl q \<le> q * (1 + u)" unfolding u_def using q0 by (rule fl_pos(2))
  have p2: "rounding_ratio ^ (n + 2) = R * (rounding_ratio * rounding_ratio)"
    by (simp add: R_def power2_eq_square algebra_simps)
  have "q * (1 + u) \<le> (80 * (1 + u) * R) * (1 + u)"
    using mult_right_mono [OF qu, of "1 + u"] u by simp
  also have "\<dots> = (80 * R) * ((1 + u) * (1 + u))" by (simp add: algebra_simps)
  also have "\<dots> \<le> (80 * R) * (rounding_ratio * rounding_ratio)"
  proof -
    have "(1 + u) * (1 + u) \<le> rounding_ratio * rounding_ratio"
      using r1 u by (intro mult_mono) simp_all
    then show ?thesis using R0 by (intro mult_left_mono) simp_all
  qed
  finally have "q * (1 + u) \<le> 80 * rounding_ratio ^ (n + 2)"
    unfolding p2 by (simp add: algebra_simps)
  then show "final_score_float mentions \<le> 80 * rounding_ratio ^ (length mentions + 2)"
    unfolding fs n_def [symmetric] using f2 by linarith
  have sq: "(1 / rounding_ratio) * (1 / rounding_ratio) \<le> (1 - u) * (1 - u)"
    using r2 r0 u by (intro mult_mono) simp_all
  have "20 / rounding_ratio ^ (n + 2) = (20 / R) * ((1 / rounding_ratio) * (1 / rounding_ratio))"
    unfolding p2 by simp
  also have "\<dots> \<le> (20 / R) * ((1 - u) * (1 - u))"
    using sq R0 by (intro mult_left_mono) simp_all
  also have "\<dots> = (20 * (1 - u) / R) * (1 - u)" by simp
  also have "\<dots> \<le> q * (1 - u)"
    using mult_right_mono [OF ql, of "1 - u"] u by simp
  finally have "20 / rounding_ratio ^ (n + 2) \<le> q * (1 - u)" .
  then show "20 / rounding_ratio ^ (length mentions + 2) \<le> final_score_float mentions"
    unfolding fs n_def [symmetric] using f1 by linarith
qed

text \<open>
  C10 (as amended). For every non-empty list of mentions whose stored confidences lie
  in \<open>[0,1]\<close> or are absent, every weight the code computes is strictly positive and so
  is the total weight, so the score is the weighted average and never the fallback 50.
  It lies in \<open>[20,80]\<close> up to the rounding of the float operations: for \<open>n\<close> mentions
  between \<open>20 / r\<^sup>n\<^sup>+\<^sup>2\<close> and \<open>80 \<times> r\<^sup>n\<^sup>+\<^sup>2\<close> with \<open>r = (2\<^sup>5\<^sup>3 + 1) / (2\<^sup>5\<^sup>3 - 1)\<close>. For up to
  \<open>2\<^sup>3\<^sup>2\<close> mentions that is within 0.001 of \<open>[20,80]\<close>, and the clamp to \<open>[0,100]\<close> does not
  alter the value.
\<close>

theorem reputation_score_near_20_and_80:
  assumes "mentions \<noteq> []" and "\<forall>m\<in>set mentions. confidence_in_unit m"
  shows "(\<forall>m\<in>set mentions. 0 < final_weight_float m)
         \<and> 0 < fst (score_loop_float mentions (0, 0))
         \<and> 20 / rounding_ratio ^ (length mentions + 2) \<le> final_score_float mentions
         \<and> final_score_float mentions \<le> 80 * rounding_ratio ^ (length mentions + 2)
         \<and> (length mentions \<le> 2 ^ 32 \<longrightarrow>
               calculate_reputation_score_float mentions = final_score_float mentions
             \<and> 20 - 1 / 1000 \<le> calculate_reputation_score_float mentions
             \<and> calculate_reputation_score_float mentions \<le> 80 + 1 / 1000)"
proof -
  let ?n = "length mentions"
  let ?f = "final_score_float mentions"
  have w: "\<forall>m\<in>set mentions. 0 < final_weight_float m"
    using assms(2) by (simp add: final_weight_float_pos)
  note b = float_score_bounds [OF assms]
  have small: "calculate_reputation_score_float mentions = ?f
             \<and> 20 - 1 / 1000 \<le> calculate_reputation_score_float mentions
             \<and> calculate_reputation_score_float mentions \<le> 80 + 1 / 1000"
    if len: "?n \<le> 2 ^ 32"
  proof -
    define P where "P = rounding_ratio ^ (?n + 2)"
    have P1: "P \<le> 1 + 1 / 10 ^ 5" unfolding P_def using len by (rule ratio_power_small)
    have P0: "1 \<le> P" unfolding P_def using ratio_ge_1 by (rule one_le_power)
    have up: "?f \<le> 80 * P" using b(3) by (simp add: P_def)
    have lo: "20 / P \<le> ?f" using b(2) by (simp add: P_def)
    have hi: "?f \<le> 80 + 1 / 1000" using up P1 by simp
    have "(20 - 1 / 1000) * P \<le> (20 - 1 / 1000) * (1 + 1 / 10 ^ 5)"
      using P1 by (intro mult_left_mono) simp_all
    also have "\<dots> \<le> 20" by simp
    finally have "20 - 1 / 1000 \<le> 20 / P" using P0 by (simp add: pos_le_divide_eq)
    then have lw: "20 - 1 / 1000 \<le> ?f" using lo by linarith
    have "calculate_reputation_score_float mentions = max 0 (min 100 ?f)"
      using assms(1)
      by (simp add: calculate_reputation_score_float_def final_score_float_def Let_def)
    also have "\<dots> = ?f" using lw hi by simp
    finally have eq: "calculate_reputation_score_float mentions = ?f" .
    show ?thesis using eq lw hi by simp
  qed
  show ?thesis using w b small by blast
qed

text \<open>
  An instance: a negative complaint of high priority with no stored confidence and a
  positive recommendation of medium priority stored with the double nearest to 1/3.
\<close>

theorem reputation_score_near_20_and_80_witness:
  "calculate_reputation_score_float
     [\<lparr>sentiment = Some ''negative'', priority = Some ''high'',
       intent = Some ''complaint'', confidence_score = None\<rparr>,
      \<lparr>sentiment = Some ''positive'', priority = Some ''medium'',
       intent = Some ''recommendation'', confidence_score = Some (fl (1 / 3))\<rparr>]
     = final_score_float
     [\<lparr>sentiment = Some ''negative'', priority = Some ''high'',
       intent = Some ''complaint'', confidence_score = None\<rparr>,
      \<lparr>sentiment = Some ''positive'', priority = Some ''medium'',
       intent = Some ''recommendation'', confidence_score = Some (fl (1 / 3))\<rparr>]
   \<and> 20 - 1 / 1000 \<le> calculate_reputation_score_float
     [\<lparr>sentiment = Some ''negative'', priority = Some ''high'',
       intent = Some ''complaint'', confidence_score = None\<rparr>,
      \<lparr>sentiment = Some ''positive'', priority = Some ''medium'',
       intent = Some ''recommendation'', confidence_score = Some (fl (1 / 3))\<rparr>]
   \<and> calculate_reputation_score_float
     [\<lparr>sentiment = Some ''negative'', priority = Some ''high'',
       intent = Some ''complaint'', confidence_score = None\<rparr>,
      \<lparr>sentiment = Some ''positive'', priority = Some ''medium'',
       intent = Some ''recommendation'', confidence_score = Some (fl (1 / 3))\<rparr>]
     \<le> 80 + 1 / 1000"
proof -
  let ?ms = "[\<lparr>sentiment = Some ''negative'', priority = Some ''high'',
       intent = Some ''complaint'', confidence_score = None\<rparr>,
      \<lparr>sentiment = Some ''positive'', priority = Some ''medium'',
       intent = Some ''recommendation'', confidence_score = Some (fl (1 / 3))\<rparr>]"
  have ne: "?ms \<noteq> []" by simp
  have t: "0 \<le> fl (1 / 3) \<and> fl (1 / 3) \<le> 1"
    using fl_pos(3) [of "1 / 3"] fl_thirds(1) by simp
  have ok: "\<forall>m\<in>set ?ms. confidence_in_unit m"
    using t by (simp add: confidence_in_unit_def)
  have len: "length ?ms \<le> 2 ^ 32" by simp
  show ?thesis using reputation_score_near_20_and_80 [OF ne ok] len by blast
qed

text \<open>
  The claim as worded fails twice. With a stored confidence that is negative the second
  weight is negative, the quotient is -40 and the clamp makes it 0. With confidences
  inside \<open>[0,1]\<close>, the doubles nearest to 0.1 and 0.2, two negative mentions score
  19.999999999999996, below 20.
\<close>

theorem reputation_score_leaves_20_80_counterexample:
  "final_score_float
     [\<lparr>sentiment = Some ''negative'', priority = Some ''low'',
       intent = Some ''neutral_mention'', confidence_score = Some 1\<rparr>,
      \<lparr>sentiment = Some ''positive'', priority = Some ''low'',
       intent = Some ''neutral_mention'', confidence_score = Some (- (1 / 2))\<rparr>] = - 40
   \<and> calculate_reputation_score_float
     [\<lparr>sentiment = Some ''negative'', priority = Some ''low'',
       intent = Some ''neutral_mention'', confidence_score = Some 1\<rparr>,
      \<lparr>sentiment = Some ''positive'', priority = Some ''low'',
       intent = Some ''neutral_mention'', confidence_score = Some (- (1 / 2))\<rparr>] = 0
   \<and> calculate_reputation_score_float
     [\<lparr>sentiment = Some ''negative'', priority = Some ''low'',
       intent = Some ''neutral_mention'', confidence_score = Some (fl (1 / 10))\<rparr>,
      \<lparr>sentiment = Some ''negative'', priority = Some ''low'',
       intent = Some ''neutral_mention'', confidence_score = Some (fl (2 / 10))\<rparr>]
     = 5629499534213119 / 281474976710656
   \<and> (5629499534213119 / 281474976710656 :: rat) < 20"
  by code_simp

subsection \<open>Topic trend\<close>

lemma raw_float_error:
  "\<bar>fl (fl q * 100) - q * 100\<bar> \<le> 3 * \<bar>q * 100\<bar> / 2 ^ 53"
proof -
  define a where "a = fl q"
  define r where "r = fl (a * 100)"
  have n: "(2::rat) ^ 53 = 9007199254740992" by simp
  have q0: "0 \<le> \<bar>q\<bar>" by simp
  have h1: "\<bar>a - q\<bar> \<le> \<bar>q\<bar> / 9007199254740992"
    using fl_error [of q] unfolding a_def n .
  have "\<bar>r - a * 100\<bar> \<le> \<bar>a * 100\<bar> / 9007199254740992"
    using fl_error [of "a * 100"] unfolding r_def n .
  then have h2: "\<bar>r - a * 100\<bar> \<le> \<bar>a\<bar> * 100 / 9007199254740992" by (simp add: abs_mult)
  have "\<bar>a\<bar> = \<bar>q + (a - q)\<bar>" by simp
  also have "\<dots> \<le> \<bar>q\<bar> + \<bar>a - q\<bar>" by (rule abs_triangle_ineq)
  finally have h3: "\<bar>a\<bar> \<le> 2 * \<bar>q\<bar>" using h1 q0 by linarith
  have "\<bar>r - q * 100\<bar> = \<bar>(r - a * 100) + (a - q) * 100\<bar>" by (simp add: algebra_simps)
  also have "\<dots> \<le> \<bar>r - a * 100\<bar> + \<bar>(a - q) * 100\<bar>" by (rule abs_triangle_ineq)
  finally have tr: "\<bar>r - q * 100\<bar> \<le> \<bar>r - a * 100\<bar> + \<bar>(a - q) * 100\<bar>" .
  have "\<bar>(a - q) * 100\<bar> = \<bar>a - q\<bar> * \<bar>100\<bar>" by (rule abs_mult)
  then have sc: "\<bar>(a - q) * 100\<bar> = \<bar>a - q\<bar> * 100" by simp
  have "\<bar>r - q * 100\<bar> \<le> 3 * (\<bar>q\<bar> * 100) / 9007199254740992"
    using tr sc h1 h2 h3 q0 by linarith
  then show ?thesis unfolding r_def a_def n by (simp add: abs_mult)
qed

lemma cap_error:
  fixes rf raw :: rat
  assumes e: "\<bar>rf - raw\<bar> \<le> 3 * \<bar>raw\<bar> / 2 ^ 53" and lo: "- 100 \<le> raw"
  shows "\<bar>min 300 rf - min 300 raw\<bar> \<le> 1 / 10 ^ 12"
    and "raw \<le> 200 \<Longrightarrow> \<bar>rf - raw\<bar> \<le> 1 / 10 ^ 12"
    and "\<bar>max (- 100) (min 500 rf) - max (- 100) (min 500 raw)\<bar> \<le> 1 / 10 ^ 12"
proof -
  have n: "(2::rat) ^ 53 = 9007199254740992" "(10::rat) ^ 12 = 1000000000000" by simp_all
  have e': "\<bar>rf - raw\<bar> \<le> 3 * \<bar>raw\<bar> / 9007199254740992" using e unfolding n .
  show "\<bar>min 300 rf - min 300 raw\<bar> \<le> 1 / 10 ^ 12"
  proof (cases "raw \<le> 600")
    case True
    then have "\<bar>rf - raw\<bar> \<le> 1 / 1000000000000" using e' lo by linarith
    then show ?thesis unfolding n by linarith
  next
    case False
    then have "300 \<le> rf" using e' by linarith
    then show ?thesis using False by simp
  qed
  show "\<bar>rf - raw\<bar> \<le> 1 / 10 ^ 12" if "raw \<le> 200"
    using that e' lo unfolding n by linarith
  show "\<bar>max (- 100) (min 500 rf) - max (- 100) (min 500 raw)\<bar> \<le> 1 / 10 ^ 12"
  proof (cases "raw \<le> 600")
    case True
    then have "\<bar>rf - raw\<bar> \<le> 1 / 1000000000000" using e' lo by linarith
    then show ?thesis unfolding n by linarith
  next
    case False
    then have "500 \<le> rf" using e' by linarith
    then show ?thesis using False by simp
  qed
qed


lemma decimal_near: "\<bar>of_int (round_half_even (x * 10)) / 10 - x\<bar> \<le> 1 / 20"
proof -
  define z :: rat where "z = of_int (round_half_even (x * 10))"
  have "\<bar>z - x * 10\<bar> \<le> 1 / 2"
    unfolding z_def by (rule round_half_even_near)
  then have "\<bar>z / 10 - x\<bar> \<le> 1 / 20"
    by linarith
  then show ?thesis unfolding z_def .
qed

lemma raw_change_lower: "0 \<le> c \<Longrightarrow> 1 \<le> p \<Longrightarrow> - 100 \<le> raw_change c p"
proof -
  assume c: "0 \<le> c" and p: "1 \<le> p"
  have pp: "(0::rat) < of_int p" using p by simp
  have "- (of_int p :: rat) \<le> of_int (c - p)" using c by simp
  then have "- 1 \<le> (of_int (c - p) :: rat) / of_int p"
    using pp by (simp add: pos_le_divide_eq)
  then have "- 1 * 100 \<le> (of_int (c - p) :: rat) / of_int p * 100"
    by (rule mult_right_mono) simp
  then show ?thesis unfolding raw_change_def by simp
qed

lemma raw_change_upper: "1 \<le> p \<Longrightarrow> c \<le> 3 * p \<Longrightarrow> raw_change c p \<le> 200"
proof -
  assume p: "1 \<le> p" and c: "c \<le> 3 * p"
  have pp: "(0::rat) < of_int p" using p by simp
  have "c - p \<le> 2 * p" using c by simp
  then have "(of_int (c - p) :: rat) \<le> of_int (2 * p)" by (simp only: of_int_le_iff)
  then have "(of_int (c - p) :: rat) \<le> 2 * of_int p" by simp
  then have "(of_int (c - p) :: rat) / of_int p \<le> 2"
    using pp by (simp add: pos_divide_le_eq)
  then have "(of_int (c - p) :: rat) / of_int p * 100 \<le> 2 * 100"
    by (rule mult_right_mono) simp
  then show ?thesis unfolding raw_change_def by simp
qed

lemma small_previous_third:
  assumes "1 \<le> c" "1 \<le> p" "p \<le> 3"
  shows "\<not> (of_int c < fl (of_int p / 3))" and "\<not> ((of_int c :: rat) < of_int p / 3)"
proof -
  have c1: "(1::rat) \<le> of_int c" using assms(1) by simp
  have "p = 1 \<or> p = 2 \<or> p = 3" using assms(2,3) by linarith
  then have "fl (of_int p / 3) \<le> 1"
    using fl_thirds fl_consts(1) by auto
  then show "\<not> (of_int c < fl (of_int p / 3))" using c1 by linarith
  have "(of_int p :: rat) \<le> 3" using assms(3) by simp
  then show "\<not> ((of_int c :: rat) < of_int p / 3)" using c1 by linarith
qed

lemma trend_general:
  assumes c: "1 \<le> c" and p: "1 \<le> p"
  shows "\<exists>k. calculate_realistic_trend c p = fl (of_int k / 10)
           \<and> \<bar>of_int k / 10 - trend_as_claimed c p\<bar> \<le> 1 / 20 + 1 / 10 ^ 12"
proof -
  define rf where "rf = fl (fl (of_int (c - p) / of_int p) * 100)"
  define raw where "raw = raw_change c p"
  have e: "\<bar>rf - raw\<bar> \<le> 3 * \<bar>raw\<bar> / 2 ^ 53"
    unfolding rf_def raw_def raw_change_def by (rule raw_float_error)
  have lo: "- 100 \<le> raw" unfolding raw_def using c p by (simp add: raw_change_lower)
  define vf where "vf =
     (if p \<le> 3 then
        (if c > p * 3 then min 300 rf
         else if of_int c < fl (of_int p / 3) then max (- 75) rf
         else rf)
      else max (- 100) (min 500 rf))"
  have code: "calculate_realistic_trend c p = py_round1 vf"
    using c p by (simp add: calculate_realistic_trend_def Let_def vf_def rf_def)
  have claimed: "trend_as_claimed c p =
     (if p \<le> 3 then
        (if c > 3 * p then min 300 raw
         else if of_int c < (of_int p / 3 :: rat) then max (- 75) raw
         else raw)
      else max (- 100) (min 500 raw))"
    using c p by (simp add: trend_as_claimed_def raw_def)
  have d: "\<bar>vf - trend_as_claimed c p\<bar> \<le> 1 / 10 ^ 12"
  proof (cases "p \<le> 3")
    case True
    show ?thesis
    proof (cases "c > 3 * p")
      case big: True
      then have "c > p * 3" by simp
      then show ?thesis
        unfolding claimed vf_def using True big cap_error(1) [OF e lo] by simp
    next
      case small: False
      then have np: "\<not> c > p * 3" by simp
      have up: "raw \<le> 200" unfolding raw_def using p small by (simp add: raw_change_upper)
      note t = small_previous_third [OF c p True]
      show ?thesis
        unfolding claimed vf_def using True small np t cap_error(2) [OF e lo up] by simp
    qed
  next
    case False
    then show ?thesis
      unfolding claimed vf_def using cap_error(3) [OF e lo] by simp
  qed
  define k where "k = round_half_even (vf * 10)"
  have r: "py_round1 vf = fl (of_int k / 10)" by (simp add: py_round1_def k_def)
  have "\<bar>of_int k / 10 - vf\<bar> \<le> 1 / 20" unfolding k_def by (rule decimal_near)
  then have "\<bar>of_int k / 10 - trend_as_claimed c p\<bar> \<le> 1 / 20 + 1 / 10 ^ 12"
    using d by linarith
  then show ?thesis using code r by auto
qed

lemma trend_edges:
  "calculate_realistic_trend c 0 = (if c > 0 then 100 else 0)"
  "p \<noteq> 0 \<Longrightarrow> calculate_realistic_trend 0 p = - 100"
  by (simp_all add: calculate_realistic_trend_def)

text \<open>
  C3 (as amended). For all non-negative integer mention counts the trend is the value of
  the capping rules (previous=0 and current>0: +100; previous=0 and current=0: 0;
  current=0 and previous>0: -100; otherwise, for 0<previous\<le>3, the raw percentage change
  capped at +300 if current>3\<times>previous, at -75 if current<previous/3, raw otherwise; for
  previous>3 the raw change clamped to [-100,+500]), computed in double precision and
  rounded to one decimal place: it is the double nearest to a multiple of 0.1, and that
  multiple differs from the exact value of the rules by at most 0.05, and \<open>10\<^sup>-\<^sup>1\<^sup>2\<close> for
  the rounding of the quotient. In the three edge cases it is the exact value.
  previous=1, current=10 yields +300 and previous=0, current=5 yields +100.
\<close>

theorem trend_is_capping_rules_rounded:
  assumes "0 \<le> c" and "0 \<le> p"
  shows "(\<exists>k. calculate_realistic_trend c p = fl (of_int k / 10)
              \<and> \<bar>of_int k / 10 - trend_as_claimed c p\<bar> \<le> 1 / 20 + 1 / 10 ^ 12)
         \<and> (p = 0 \<or> c = 0 \<longrightarrow> calculate_realistic_trend c p = trend_as_claimed c p)
         \<and> calculate_realistic_trend 10 1 = 300
         \<and> calculate_realistic_trend 5 0 = 100"
proof -
  have e: "p = 0 \<or> c = 0 \<longrightarrow> calculate_realistic_trend c p = trend_as_claimed c p"
    using assms by (auto simp: calculate_realistic_trend_def trend_as_claimed_def)
  have k: "\<exists>k. calculate_realistic_trend c p = fl (of_int k / 10)
              \<and> \<bar>of_int k / 10 - trend_as_claimed c p\<bar> \<le> 1 / 20 + 1 / 10 ^ 12"
  proof (cases "p = 0 \<or> c = 0")
    case False
    then have "1 \<le> c" "1 \<le> p" using assms by simp_all
    then show ?thesis by (rule trend_general)
  next
    case True
    then have t: "calculate_realistic_trend c p = trend_as_claimed c p" using e by simp
    have "trend_as_claimed c p = 100 \<or> trend_as_claimed c p = 0
          \<or> trend_as_claimed c p = - 100"
      using True assms by (auto simp: trend_as_claimed_def)
    then consider "trend_as_claimed c p = 100" | "trend_as_claimed c p = 0"
      | "trend_as_claimed c p = - 100" by blast
    then show ?thesis
    proof cases
      case 1
      have "fl (of_int 1000 / 10) = 100" using fl_consts(2) by simp
      then have "calculate_realistic_trend c p = fl (of_int 1000 / 10)
          \<and> \<bar>of_int 1000 / 10 - trend_as_claimed c p\<bar> \<le> 1 / 20 + 1 / 10 ^ 12"
        using t 1 by simp
      then show ?thesis by blast
    next
      case 2
      have "fl (of_int 0 / 10) = 0" by (simp add: fl_zero)
      then have "calculate_realistic_trend c p = fl (of_int 0 / 10)
          \<and> \<bar>of_int 0 / 10 - trend_as_claimed c p\<bar> \<le> 1 / 20 + 1 / 10 ^ 12"
        using t 2 by simp
      then show ?thesis by blast
    next
      case 3
      have "fl (of_int (- 1000) / 10) = - 100" using fl_consts(3) by simp
      then have "calculate_realistic_trend c p = fl (of_int (- 1000) / 10)
          \<and> \<bar>of_int (- 1000) / 10 - trend_as_claimed c p\<bar> \<le> 1 / 20 + 1 / 10 ^ 12"
        using t 3 by simp
      then show ?thesis by blast
    qed
  qed
  have a: "calculate_realistic_trend 10 1 = 300" by code_simp
  have b: "calculate_realistic_trend 5 0 = 100"
    by (simp add: calculate_realistic_trend_def)
  from k e a b show ?thesis by blast
qed

text \<open>
  An instance: previous=80, current=29. The exact change is -63.75; the doubles give
  -63.74999999999999, and the trend is -63.7.
\<close>

theorem trend_is_capping_rules_rounded_witness:
  "(\<exists>k. calculate_realistic_trend 29 80 = fl (of_int k / 10)
        \<and> \<bar>of_int k / 10 - (- (255 / 4) :: rat)\<bar> \<le> 1 / 20 + 1 / 10 ^ 12)
   \<and> calculate_realistic_trend 29 80 = fl (- (637 / 10))"
proof -
  have c: "trend_as_claimed 29 80 = - (255 / 4)"
    by (simp add: trend_as_claimed_def raw_change_def)
  have "\<exists>k. calculate_realistic_trend 29 80 = fl (of_int k / 10)
        \<and> \<bar>of_int k / 10 - trend_as_claimed 29 80\<bar> \<le> 1 / 20 + 1 / 10 ^ 12"
    using trend_is_capping_rules_rounded [of 29 80] by simp
  moreover have "calculate_realistic_trend 29 80 = fl (- (637 / 10))" by code_simp
  ultimately show ?thesis unfolding c by blast
qed

text \<open>
  The claim as worded ("used raw otherwise") fails where the raw change is not a
  multiple of 0.1: for previous=3, current=4 the rules give 100/3 and the code returns
  33.3, the double \<open>2343279181116211 / 2\<^sup>4\<^sup>6\<close>.
\<close>

theorem trend_raw_not_returned_counterexample:
  "calculate_realistic_trend 4 3 = 2343279181116211 / 70368744177664
   \<and> calculate_realistic_trend 4 3 = fl (333 / 10)
   \<and> trend_as_claimed 4 3 = 100 / 3"
  by code_simp

subsection \<open>Sentiment\<close>

lemma adjustment_loop_sum:
  "adjustment_loop re ps t a = a + triggered_deltas re ps t"
proof (induction ps arbitrary: a)
  case Nil
  show ?case by (simp add: triggered_deltas_def)
next
  case (Cons pd ps)
  obtain pat d where pd: "pd = (pat, d)" by (cases pd)
  show ?case
    unfolding pd using Cons.IH by (simp add: triggered_deltas_def)
qed

lemma apply_context_adjustments_eq:
  "apply_context_adjustments re text base = max (- 1) (min 1 (adjusted_sum re text base))"
  by (simp add: apply_context_adjustments_def adjusted_sum_def adjustment_loop_sum Let_def)

text \<open>
  C7. For every text, every base polarity and every behaviour of the pattern matcher,
  the adjusted polarity is the base plus the deltas of all matching patterns (those of
  positive reinforcement counted only when the base is above 0), clamped, and lies in
  \<open>[-1,1]\<close>. For every polarity the label is "positive" exactly above 0.05, "negative"
  exactly below -0.05, and "neutral" exactly in between.
\<close>

theorem adjusted_polarity_clamped_and_labelled:
  "apply_context_adjustments re text base = max (- 1) (min 1 (adjusted_sum re text base))
   \<and> - 1 \<le> apply_context_adjustments re text base
   \<and> apply_context_adjustments re text base \<le> 1
   \<and> (get_sentiment_label p = ''positive'') = (p > 5 / 100)
   \<and> (get_sentiment_label p = ''negative'') = (p < - (5 / 100))
   \<and> (get_sentiment_label p = ''neutral'') = (- (5 / 100) \<le> p \<and> p \<le> 5 / 100)"
proof -
  have e: "apply_context_adjustments re text base = max (- 1) (min 1 (adjusted_sum re text base))"
    by (rule apply_context_adjustments_eq)
  have lo: "- 1 \<le> apply_context_adjustments re text base" unfolding e by simp
  have hi: "apply_context_adjustments re text base \<le> 1" unfolding e by simp
  have l1: "(get_sentiment_label p = ''positive'') = (p > 5 / 100)"
    by (simp add: get_sentiment_label_def)
  have l2: "(get_sentiment_label p = ''negative'') = (p < - (5 / 100))"
    by (simp add: get_sentiment_label_def)
  have l3: "(get_sentiment_label p = ''neutral'') = (- (5 / 100) \<le> p \<and> p \<le> 5 / 100)"
    by (auto simp: get_sentiment_label_def)
  from e lo hi l1 l2 l3 show ?thesis by blast
qed

text \<open>
  An instance: with a matcher that finds the pattern for "terrible" (and would find the
  one for "amazing"), a base of 0.1 is adjusted to -0.3, labelled negative.
\<close>

theorem adjusted_polarity_clamped_and_labelled_witness:
  "apply_context_adjustments
     (\<lambda>pattern text_lower. pattern = bs @ ''bterrible'' @ bs @ ''b'') ''Terrible'' (1 / 10)
     = - (3 / 10)
   \<and> get_sentiment_label (- (3 / 10)) = ''negative''"
proof -
  let ?re = "\<lambda>pattern text_lower :: string. pattern = bs @ ''bterrible'' @ bs @ ''b''"
  have s: "adjusted_sum ?re ''Terrible'' (1 / 10) = - (3 / 10)"
    by (simp add: adjusted_sum_def triggered_deltas_def dissatisfaction_patterns_def
        positive_reinforcement_patterns_def negative_reinforcement_patterns_def bs_def)
  have "apply_context_adjustments ?re ''Terrible'' (1 / 10)
          = max (- 1) (min 1 (adjusted_sum ?re ''Terrible'' (1 / 10)))
        \<and> (get_sentiment_label (- (3 / 10)) = ''negative'') = ((- (3 / 10) :: rat) < - (5 / 100))"
    using adjusted_polarity_clamped_and_labelled [of ?re "''Terrible''" "1 / 10" "- (3 / 10)"]
    by blast
  then show ?thesis unfolding s by simp
qed

lemma analyze_sentiment_returns: "\<exists>r. analyze_sentiment env text = Inr r"
  by (simp add: analyze_sentiment_def split: sum.splits option.splits)

lemma with_openai_returns: "\<exists>r. analyze_sentiment_with_openai env text = Inr r"
  by (simp add: analyze_sentiment_with_openai_def split: sum.splits)

lemma fails_gives_fallback:
  assumes "external_path_fails env text"
  shows "analyze_sentiment env text = Inr (textblob_enhanced env text)"
proof (cases "OPENAI_API_KEY env = None \<or> OPENAI_API_KEY env = Some []")
  case True
  then show ?thesis by (auto simp: analyze_sentiment_def)
next
  case False
  then have f: "(case crew_kickoff env text of
         Inl e \<Rightarrow> True
       | Inr result \<Rightarrow>
           py_find CHR ''{'' (strip result) = - 1 \<or>
           isl (json_loads env
                  (py_slice (strip result) (py_find CHR ''{'' (strip result))
                     (py_rfind CHR ''}'' (strip result) + 1))))"
    using assms False unfolding external_path_fails_def by blast
  have "analyze_sentiment_with_openai env text = Inr None"
    using f
    by (auto simp: analyze_sentiment_with_openai_def analyze_sentiment_with_openai_try_def
        Let_def isl_def split: sum.splits py_exn.splits)
  then show ?thesis by (simp add: analyze_sentiment_def)
qed

lemma rfind_from_lower: "- 1 \<le> found \<Longrightarrow> 0 \<le> i \<Longrightarrow> - 1 \<le> rfind_from c s i found"
  by (induction s arbitrary: i found) auto

lemma py_rfind_lower: "- 1 \<le> py_rfind c s"
  by (simp add: py_rfind_def rfind_from_lower)

lemma end_idx_not_minus_one: "py_rfind c s + 1 \<noteq> - 1"
  using py_rfind_lower [of c s] by linarith

lemma succeeds_gives_external:
  assumes "\<not> external_path_fails env text"
  shows "\<exists>r. analyze_sentiment env text = Inr r \<and> method r = ''openai_crewai''"
  using assms
  by (auto simp: external_path_fails_def analyze_sentiment_def analyze_sentiment_with_openai_def
      analyze_sentiment_with_openai_try_def Let_def isl_def end_idx_not_minus_one
      split: sum.splits py_exn.splits)

text \<open>
  C9. For every environment and text, \<open>analyze_sentiment\<close> returns a result (no
  exception of the external path reaches the caller, and
  \<open>_analyze_sentiment_with_openai\<close> itself returns as well), and whenever the external
  path fails (no key, an exception, or a response that does not hold JSON) the result
  is the rule-based one. When it does not fail, the result is the external one.
\<close>

theorem analyze_sentiment_falls_back:
  "(\<exists>r. analyze_sentiment env text = Inr r)
   \<and> (\<exists>r. analyze_sentiment_with_openai env text = Inr r)
   \<and> (external_path_fails env text \<longrightarrow>
        analyze_sentiment env text = Inr (textblob_enhanced env text))
   \<and> (\<not> external_path_fails env text \<longrightarrow>
        (\<exists>r. analyze_sentiment env text = Inr r \<and> method r = ''openai_crewai''))"
  using analyze_sentiment_returns [of env "text"] with_openai_returns [of env "text"]
    fails_gives_fallback [of env "text"] succeeds_gives_external [of env "text"]
  by blast

text \<open>
  An instance: a key is set and the response has an opening brace but is not JSON; the
  result is the rule-based one.
\<close>

theorem analyze_sentiment_falls_back_witness:
  "analyze_sentiment
     \<lparr>OPENAI_API_KEY = Some ''key'',
      crew_kickoff = (\<lambda>t. Inr '' I think {positive ''),
      json_loads = (\<lambda>s. Inl JSONDecodeError),
      textblob_sentiment = (\<lambda>t. (1 / 2, 6 / 10)),
      regex_search = (\<lambda>pattern t. False)\<rparr> ''Good app''
   = Inr \<lparr>polarity = 1 / 2, subjectivity = 6 / 10, sentiment_label = ''positive'',
          base_polarity = Some (1 / 2), confidence = None, reasoning = None,
          method = ''textblob_enhanced''\<rparr>"
proof -
  let ?env = "\<lparr>OPENAI_API_KEY = Some ''key'',
      crew_kickoff = (\<lambda>t. Inr '' I think {positive ''),
      json_loads = (\<lambda>s. Inl JSONDecodeError),
      textblob_sentiment = (\<lambda>t. (1 / 2, 6 / 10)),
      regex_search = (\<lambda>pattern t. False)\<rparr>"
  have f: "external_path_fails ?env ''Good app''"
    by (simp add: external_path_fails_def)
  have "analyze_sentiment ?env ''Good app'' = Inr (textblob_enhanced ?env ''Good app'')"
    using analyze_sentiment_falls_back [of ?env "''Good app''"] f by blast
  moreover have "textblob_enhanced ?env ''Good app''
      = \<lparr>polarity = 1 / 2, subjectivity = 6 / 10, sentiment_label = ''positive'',
          base_polarity = Some (1 / 2), confidence = None, reasoning = None,
          method = ''textblob_enhanced''\<rparr>"
    by (simp add: textblob_enhanced_def apply_context_adjustments_def Let_def
        get_sentiment_label_def dissatisfaction_patterns_def
        positive_reinforcement_patterns_def negative_reinforcement_patterns_def)
  ultimately show ?thesis by simp
qed

subsection \<open>Priority\<close>

text \<open>
  C5. For every sentiment result, every intent result and every text: if the lowercased
  text contains a critical keyword, the priority is "critical". The keywords the
  specification lists (scam, fraud, illegal, lawsuit, refund, hate, disgusting, crash,
  bug, error, broken, terrible, worst, awful) are all critical keywords of the code.
\<close>

theorem critical_keyword_gives_critical:
  "(kw \<in> set critical_keywords \<and> sublist kw (lower content) \<longrightarrow>
      determine_priority sentiment' intent' content = ''critical'')
   \<and> set [''scam'', ''fraud'', ''illegal'', ''lawsuit'', ''refund'', ''hate'', ''disgusting'',
           ''crash'', ''bug'', ''error'', ''broken'', ''terrible'', ''worst'', ''awful'']
       \<subseteq> set critical_keywords"
proof -
  have "determine_priority sentiment' intent' content = ''critical''"
    if "kw \<in> set critical_keywords" and "sublist kw (lower content)"
  proof -
    have "any_in critical_keywords (lower content)"
      using that by (auto simp: any_in_def list_ex_iff)
    then show ?thesis by (simp add: determine_priority_def Let_def)
  qed
  moreover have "set [''scam'', ''fraud'', ''illegal'', ''lawsuit'', ''refund'', ''hate'',
           ''disgusting'', ''crash'', ''bug'', ''error'', ''broken'', ''terrible'', ''worst'',
           ''awful''] \<subseteq> set critical_keywords"
    by (simp add: critical_keywords_def)
  ultimately show ?thesis by blast
qed

text \<open>
  An instance: "scam" in a text whose sentiment is weakly positive and whose intent is a
  recommendation.
\<close>

theorem critical_keyword_gives_critical_witness:
  "determine_priority
     \<lparr>polarity = 1 / 10, subjectivity = 1 / 2, sentiment_label = ''positive'',
      base_polarity = Some (1 / 10), confidence = None, reasoning = None,
      method = ''textblob_enhanced''\<rparr>
     \<lparr>i_intent = ''recommendation'', i_confidence = 1 / 3,
      keywords_matched = [''recommend''], all_scores = Some [(''recommendation'', 1)]\<rparr>
     ''Nice SCAM, I recommend it'' = ''critical''"
proof -
  have k: "''scam'' \<in> set critical_keywords" by (simp add: critical_keywords_def)
  have s: "sublist ''scam'' (lower ''Nice SCAM, I recommend it'')"
    by (simp add: lower_def lower_char_def sublist_code)
  show ?thesis
    using critical_keyword_gives_critical [of "''scam''" "''Nice SCAM, I recommend it''"] k s
    by blast
qed

subsection \<open>Intent\<close>

lemma dict_set_new: "k \<notin> fst ` set d \<Longrightarrow> dict_set k v d = d @ [(k, v)]"
  by (induction d) auto

lemma intent_scores_loop_filter:
  "distinct (map fst ps) \<Longrightarrow> fst ` set acc \<inter> fst ` set ps = {} \<Longrightarrow>
   intent_scores_loop ps t acc = acc @ filter (\<lambda>cn. snd cn > 0) (scored ps t)"
proof (induction ps arbitrary: acc)
  case Nil
  show ?case by (simp add: scored_def)
next
  case (Cons ck ps)
  obtain c kws where ck: "ck = (c, kws)" by (cases ck)
  have new: "c \<notin> fst ` set acc" using Cons.prems(2) ck by auto
  have d: "distinct (map fst ps)" using Cons.prems(1) by simp
  have c_ps: "c \<notin> fst ` set ps" using Cons.prems(1) ck by auto
  show ?case
  proof (cases "hit_count kws t > 0")
    case True
    have disj: "fst ` set (acc @ [(c, hit_count kws t)]) \<inter> fst ` set ps = {}"
      using Cons.prems(2) c_ps by auto
    show ?thesis
      unfolding ck using True Cons.IH [OF d disj] dict_set_new [OF new]
      by (simp add: scored_def Let_def)
  next
    case False
    have disj: "fst ` set acc \<inter> fst ` set ps = {}" using Cons.prems(2) by auto
    show ?thesis
      unfolding ck using False Cons.IH [OF d disj] by (simp add: scored_def Let_def)
  qed
qed

lemma py_max_by_score_first_max:
  "(py_max_by_score b xs = b \<and> (\<forall>x\<in>set xs. snd x \<le> snd b)) \<or>
   (\<exists>pre post. xs = pre @ py_max_by_score b xs # post \<and>
      snd b < snd (py_max_by_score b xs) \<and>
      (\<forall>x\<in>set pre. snd x < snd (py_max_by_score b xs)) \<and>
      (\<forall>x\<in>set post. snd x \<le> snd (py_max_by_score b xs)))"
proof (induction xs arbitrary: b)
  case Nil
  show ?case by simp
next
  case (Cons x xs)
  show ?case
  proof (cases "snd x > snd b")
    case True
    let ?m = "py_max_by_score x xs"
    have m: "py_max_by_score b (x # xs) = ?m" using True by simp
    from Cons.IH [of x] show ?thesis
    proof
      assume a: "?m = x \<and> (\<forall>y\<in>set xs. snd y \<le> snd x)"
      have "x # xs = [] @ ?m # xs" using a by simp
      then show ?thesis unfolding m using a True by (metis empty_iff list.set(1))
    next
      assume "\<exists>pre post. xs = pre @ ?m # post \<and> snd x < snd ?m \<and>
         (\<forall>y\<in>set pre. snd y < snd ?m) \<and> (\<forall>y\<in>set post. snd y \<le> snd ?m)"
      then obtain pre post where p: "xs = pre @ ?m # post" "snd x < snd ?m"
         "\<forall>y\<in>set pre. snd y < snd ?m" "\<forall>y\<in>set post. snd y \<le> snd ?m" by blast
      have "x # xs = (x # pre) @ ?m # post" using p(1) by simp
      moreover have "\<forall>y\<in>set (x # pre). snd y < snd ?m" using p(2,3) by simp
      moreover have "snd b < snd ?m" using True p(2) by linarith
      ultimately show ?thesis unfolding m using p(4) by blast
    qed
  next
    case False
    let ?m = "py_max_by_score b xs"
    have m: "py_max_by_score b (x # xs) = ?m" using False by simp
    from Cons.IH [of b] show ?thesis
    proof
      assume a: "?m = b \<and> (\<forall>y\<in>set xs. snd y \<le> snd b)"
      then show ?thesis unfolding m using False by auto
    next
      assume "\<exists>pre post. xs = pre @ ?m # post \<and> snd b < snd ?m \<and>
         (\<forall>y\<in>set pre. snd y < snd ?m) \<and> (\<forall>y\<in>set post. snd y \<le> snd ?m)"
      then obtain pre post where p: "xs = pre @ ?m # post" "snd b < snd ?m"
         "\<forall>y\<in>set pre. snd y < snd ?m" "\<forall>y\<in>set post. snd y \<le> snd ?m" by blast
      have "x # xs = (x # pre) @ ?m # post" using p(1) by simp
      moreover have "\<forall>y\<in>set (x # pre). snd y < snd ?m" using p(2,3) False by auto
      ultimately show ?thesis unfolding m using p(2,4) by blast
    qed
  qed
qed

lemma py_max_decomp:
  "\<exists>pre post. item # items = pre @ py_max_by_score item items # post \<and>
      (\<forall>x\<in>set pre. snd x < snd (py_max_by_score item items)) \<and>
      (\<forall>x\<in>set post. snd x \<le> snd (py_max_by_score item items))"
proof -
  let ?m = "py_max_by_score item items"
  from py_max_by_score_first_max [of item items] show ?thesis
  proof
    assume a: "?m = item \<and> (\<forall>x\<in>set items. snd x \<le> snd item)"
    then have "item # items = [] @ ?m # items" by simp
    then show ?thesis using a by (metis empty_iff list.set(1))
  next
    assume "\<exists>pre post. items = pre @ ?m # post \<and> snd item < snd ?m \<and>
      (\<forall>x\<in>set pre. snd x < snd ?m) \<and> (\<forall>x\<in>set post. snd x \<le> snd ?m)"
    then obtain pre post where p: "items = pre @ ?m # post" "snd item < snd ?m"
      "\<forall>x\<in>set pre. snd x < snd ?m" "\<forall>x\<in>set post. snd x \<le> snd ?m" by blast
    have "item # items = (item # pre) @ ?m # post" using p(1) by simp
    moreover have "\<forall>x\<in>set (item # pre). snd x < snd ?m" using p(2,3) by simp
    ultimately show ?thesis using p(4) by blast
  qed
qed

lemma filter_map_decomp:
  "filter P (map f ps) = pre' @ m # post' \<Longrightarrow>
   \<exists>pre x post. ps = pre @ x # post \<and> f x = m \<and>
      filter P (map f pre) = pre' \<and> filter P (map f post) = post'"
proof (induction ps arbitrary: pre')
  case Nil
  then show ?case by simp
next
  case (Cons p ps)
  show ?case
  proof (cases "P (f p)")
    case True
    then have e: "f p # filter P (map f ps) = pre' @ m # post'" using Cons.prems by simp
    show ?thesis
    proof (cases pre')
      case Nil
      then have "f p = m" "filter P (map f ps) = post'" using e by simp_all
      then have "p # ps = [] @ p # ps \<and> f p = m \<and> filter P (map f []) = pre'
          \<and> filter P (map f ps) = post'" using Nil by simp
      then show ?thesis by blast
    next
      case (Cons a pre'')
      then have a: "a = f p" "filter P (map f ps) = pre'' @ m # post'" using e by simp_all
      from Cons.IH [OF a(2)] obtain pre x post where
        q: "ps = pre @ x # post" "f x = m" "filter P (map f pre) = pre''"
           "filter P (map f post) = post'" by blast
      have "p # ps = (p # pre) @ x # post \<and> f x = m \<and> filter P (map f (p # pre)) = pre'
          \<and> filter P (map f post) = post'"
        using q a(1) True Cons by simp
      then show ?thesis by blast
    qed
  next
    case False
    then have "filter P (map f ps) = pre' @ m # post'" using Cons.prems by simp
    from Cons.IH [OF this] obtain pre x post where
        q: "ps = pre @ x # post" "f x = m" "filter P (map f pre) = pre'"
           "filter P (map f post) = post'" by blast
    have "p # ps = (p # pre) @ x # post \<and> f x = m \<and> filter P (map f (p # pre)) = pre'
          \<and> filter P (map f post) = post'"
      using q False by simp
    then show ?thesis by blast
  qed
qed


lemma intent_patterns_distinct: "distinct (map fst intent_patterns)"
  by (simp add: intent_patterns_def)

lemma intent_scores_eq:
  "intent_scores_loop intent_patterns t [] = filter (\<lambda>cn. snd cn > 0) (scored intent_patterns t)"
  using intent_scores_loop_filter [OF intent_patterns_distinct, of "[]" t] by simp

lemma classify_intent_none:
  assumes "\<forall>ck\<in>set intent_patterns. hit_count (snd ck) (lower text) = 0"
  shows "classify_intent text = Inr \<lparr>i_intent = ''neutral_mention'', i_confidence = 1 / 2,
                      keywords_matched = [], all_scores = None\<rparr>"
proof -
  have "filter (\<lambda>cn. snd cn > 0) (scored intent_patterns (lower text)) = []"
    using assms by (auto simp: filter_empty_conv scored_def)
  then show ?thesis by (simp add: classify_intent_def intent_scores_eq Let_def)
qed

lemma classify_intent_some:
  assumes "\<not> (\<forall>ck\<in>set intent_patterns. hit_count (snd ck) (lower text) = 0)"
  shows "\<exists>r pre kws post. classify_intent text = Inr r
           \<and> intent_patterns = pre @ (i_intent r, kws) # post
           \<and> 0 < hit_count kws (lower text)
           \<and> (\<forall>ck\<in>set pre. hit_count (snd ck) (lower text) < hit_count kws (lower text))
           \<and> (\<forall>ck\<in>set post. hit_count (snd ck) (lower text) \<le> hit_count kws (lower text))
           \<and> i_confidence r = min 1 (of_nat (hit_count kws (lower text)) / 3)
           \<and> keywords_matched r = filter (\<lambda>k. sublist k (lower text)) kws"
proof -
  let ?t = "lower text"
  let ?P = "\<lambda>cn :: string \<times> nat. snd cn > 0"
  let ?f = "\<lambda>ck :: string \<times> string list. (fst ck, hit_count (snd ck) ?t)"
  let ?scores = "filter ?P (map ?f intent_patterns)"
  have sc: "intent_scores_loop intent_patterns ?t [] = ?scores"
    by (simp add: intent_scores_eq scored_def)
  have "?scores \<noteq> []" using assms by (auto simp: filter_empty_conv)
  then obtain item items where it: "?scores = item # items" by (cases ?scores) auto
  let ?m = "py_max_by_score item items"
  obtain pre' post' where d: "item # items = pre' @ ?m # post'"
      "\<forall>x\<in>set pre'. snd x < snd ?m" "\<forall>x\<in>set post'. snd x \<le> snd ?m"
    using py_max_decomp [of item items] by blast
  have "?scores = pre' @ ?m # post'" using it d(1) by simp
  from filter_map_decomp [OF this] obtain pre x post where
    q: "intent_patterns = pre @ x # post" "?f x = ?m"
       "filter ?P (map ?f pre) = pre'" "filter ?P (map ?f post) = post'" by blast
  have "?m \<in> set ?scores" using it d(1) by simp
  then have mpos: "0 < snd ?m" by simp
  have hx: "hit_count (snd x) ?t = snd ?m" using q(2) by (metis snd_conv)
  have fx: "fst x = fst ?m" using q(2) by (metis fst_conv)
  have pre_lt: "\<forall>ck\<in>set pre. hit_count (snd ck) ?t < hit_count (snd x) ?t"
  proof
    fix ck assume ck: "ck \<in> set pre"
    show "hit_count (snd ck) ?t < hit_count (snd x) ?t"
    proof (cases "0 < hit_count (snd ck) ?t")
      case True
      then have "?f ck \<in> set pre'" using ck q(3) by force
      then show ?thesis using d(2) hx by force
    next
      case False
      then show ?thesis using mpos hx by simp
    qed
  qed
  have post_le: "\<forall>ck\<in>set post. hit_count (snd ck) ?t \<le> hit_count (snd x) ?t"
  proof
    fix ck assume ck: "ck \<in> set post"
    show "hit_count (snd ck) ?t \<le> hit_count (snd x) ?t"
    proof (cases "0 < hit_count (snd ck) ?t")
      case True
      then have "?f ck \<in> set post'" using ck q(4) by force
      then show ?thesis using d(3) hx by force
    next
      case False
      then show ?thesis by simp
    qed
  qed
  have "x \<in> set intent_patterns" using q(1) by (metis in_set_conv_decomp)
  then have "(fst x, snd x) \<in> set intent_patterns" by simp
  then have mo: "map_of intent_patterns (fst ?m) = Some (snd x)"
    using intent_patterns_distinct fx by (metis map_of_is_SomeI)
  let ?r = "\<lparr>i_intent = fst ?m, i_confidence = min 1 (of_nat (snd ?m) / 3),
             keywords_matched = filter (\<lambda>keyword. sublist keyword ?t) (snd x),
             all_scores = Some ?scores\<rparr>"
  have c: "classify_intent text = Inr ?r"
    unfolding classify_intent_def Let_def sc it list.case mo option.case
    using it by simp
  have pat: "intent_patterns = pre @ (i_intent ?r, snd x) # post"
    using q(1) fx by (metis intent_result.select_convs(1) prod.collapse)
  have "classify_intent text = Inr ?r
           \<and> intent_patterns = pre @ (i_intent ?r, snd x) # post
           \<and> 0 < hit_count (snd x) ?t
           \<and> (\<forall>ck\<in>set pre. hit_count (snd ck) ?t < hit_count (snd x) ?t)
           \<and> (\<forall>ck\<in>set post. hit_count (snd ck) ?t \<le> hit_count (snd x) ?t)
           \<and> i_confidence ?r = min 1 (of_nat (hit_count (snd x) ?t) / 3)
           \<and> keywords_matched ?r = filter (\<lambda>k. sublist k ?t) (snd x)"
    using c pat mpos hx pre_lt post_le by simp
  then show ?thesis by blast
qed


text \<open>
  C6. For every text the classifier returns a result. If no category has a keyword hit in
  the lowercased text, the result is "neutral_mention" with confidence 0.5 and no
  matched keywords. Otherwise the intent is a category whose hit count is positive and
  highest (no category scores more, and every category declared before it scores
  strictly less), the confidence is min(1, hits/3), and the matched keywords are the
  keywords of that category that occur in the text.
\<close>

theorem classify_intent_highest_score:
  "\<exists>r. classify_intent text = Inr r \<and>
     (if \<forall>ck\<in>set intent_patterns. hit_count (snd ck) (lower text) = 0
      then r = \<lparr>i_intent = ''neutral_mention'', i_confidence = 1 / 2,
                 keywords_matched = [], all_scores = None\<rparr>
      else \<exists>pre kws post.
             intent_patterns = pre @ (i_intent r, kws) # post
             \<and> 0 < hit_count kws (lower text)
             \<and> (\<forall>ck\<in>set pre. hit_count (snd ck) (lower text) < hit_count kws (lower text))
             \<and> (\<forall>ck\<in>set post. hit_count (snd ck) (lower text) \<le> hit_count kws (lower text))
             \<and> i_confidence r = min 1 (of_nat (hit_count kws (lower text)) / 3)
             \<and> keywords_matched r = filter (\<lambda>k. sublist k (lower text)) kws)"
proof (cases "\<forall>ck\<in>set intent_patterns. hit_count (snd ck) (lower text) = 0")
  case True
  then show ?thesis using classify_intent_none [OF True] by simp
next
  case False
  from classify_intent_some [OF False] obtain r pre kws post where
    "classify_intent text = Inr r
           \<and> intent_patterns = pre @ (i_intent r, kws) # post
           \<and> 0 < hit_count kws (lower text)
           \<and> (\<forall>ck\<in>set pre. hit_count (snd ck) (lower text) < hit_count kws (lower text))
           \<and> (\<forall>ck\<in>set post. hit_count (snd ck) (lower text) \<le> hit_count kws (lower text))
           \<and> i_confidence r = min 1 (of_nat (hit_count kws (lower text)) / 3)
           \<and> keywords_matched r = filter (\<lambda>k. sublist k (lower text)) kws"
    by blast
  then show ?thesis using False by auto
qed

text \<open>
  An instance: two complaint keywords and one question keyword give "complaint" with
  confidence 2/3.
\<close>

theorem classify_intent_highest_score_witness:
  "\<exists>r. classify_intent ''The app is BROKEN, it keeps crashing. Help!'' = Inr r
      \<and> r = \<lparr>i_intent = ''complaint'', i_confidence = 2 / 3,
               keywords_matched = [''broken'', ''crash''],
               all_scores = Some [(''complaint'', 2), (''question'', 1)]\<rparr>
      \<and> (\<exists>pre kws post. intent_patterns = pre @ (''complaint'', kws) # post
             \<and> 0 < hit_count kws (lower ''The app is BROKEN, it keeps crashing. Help!'')
             \<and> i_confidence r
                 = min 1 (of_nat (hit_count kws
                     (lower ''The app is BROKEN, it keeps crashing. Help!'')) / 3))"
proof -
  let ?T = "''The app is BROKEN, it keeps crashing. Help!''"
  let ?X = "\<lparr>i_intent = ''complaint'', i_confidence = 2 / 3,
               keywords_matched = [''broken'', ''crash''],
               all_scores = Some [(''complaint'', 2), (''question'', 1)]\<rparr>"
  have e: "classify_intent ?T = Inr ?X" by code_simp
  have "hit_count (snd (hd intent_patterns)) (lower ?T) \<noteq> 0" by code_simp
  moreover have "hd intent_patterns \<in> set intent_patterns" by (simp add: intent_patterns_def)
  ultimately have ne: "\<not> (\<forall>ck\<in>set intent_patterns. hit_count (snd ck) (lower ?T) = 0)"
    by metis
  from classify_intent_highest_score [of ?T] ne e
  have "\<exists>pre kws post. intent_patterns = pre @ (i_intent ?X, kws) # post
             \<and> 0 < hit_count kws (lower ?T)
             \<and> i_confidence ?X = min 1 (of_nat (hit_count kws (lower ?T)) / 3)"
    by auto
  then show ?thesis using e by simp
qed

subsection \<open>Keywords and topics of a mention\<close>

lemma found_keywords_loop_filter:
  "found_keywords_loop ks c acc = acc @ filter (\<lambda>k. sublist k c) ks"
  by (induction ks arbitrary: acc) auto

lemma identified_topics_loop_filter:
  "identified_topics_loop ts c acc = acc @ map fst (filter (\<lambda>tk. any_in (snd tk) c) ts)"
proof (induction ts arbitrary: acc)
  case Nil
  show ?case by simp
next
  case (Cons tk ts)
  obtain t kws where tk: "tk = (t, kws)" by (cases tk)
  show ?case unfolding tk using Cons.IH by simp
qed

lemma extract_keywords_eq:
  "extract_keywords content = take 10 (filter (\<lambda>k. sublist k (lower content)) product_keywords)"
  by (simp add: extract_keywords_def found_keywords_loop_filter)

lemma extract_topics_eq:
  "extract_topics content =
     map fst (filter (\<lambda>tk. any_in (snd tk) (lower content)) topic_keywords)"
  by (simp add: extract_topics_def identified_topics_loop_filter)

lemma subseq_take_filter: "subseq (take n (filter P xs)) xs"
proof -
  have "subseq (take n (filter P xs)) (filter P xs)"
    by (metis append_take_drop_id list_emb_prefix subseq_order.order_refl)
  moreover have "subseq (filter P xs) xs" by simp
  ultimately show ?thesis by (rule subseq_order.order_trans)
qed

lemma subseq_map_fst_filter: "subseq (map fst (filter P xs)) (map fst xs)"
  by (simp add: subseq_map)

text \<open>
  C8 (as amended). For every mention that \<open>mention_service\<close> classifies, the matched
  keywords are at most 10 and the topics at most 7 (one for each topic of the taxonomy):
  the keywords are the first ten words of the product vocabulary that occur in the
  lowercased content, the topics are the topics with a keyword that occurs in it, and
  each list is in the order of its table.
\<close>

theorem extractor_bounds:
  "length (extract_keywords content) \<le> 10
   \<and> length (extract_topics content) \<le> 7
   \<and> subseq (extract_keywords content) product_keywords
   \<and> subseq (extract_topics content) (map fst topic_keywords)
   \<and> extract_keywords content
       = take 10 (filter (\<lambda>k. sublist k (lower content)) product_keywords)
   \<and> extract_topics content
       = map fst (filter (\<lambda>tk. any_in (snd tk) (lower content)) topic_keywords)"
proof -
  have k: "length (extract_keywords content) \<le> 10"
    by (simp add: extract_keywords_eq)
  have "length (extract_topics content) \<le> length topic_keywords"
    by (simp add: extract_topics_eq)
  then have t: "length (extract_topics content) \<le> 7"
    by (simp add: topic_keywords_def)
  have sk: "subseq (extract_keywords content) product_keywords"
    unfolding extract_keywords_eq by (rule subseq_take_filter)
  have st: "subseq (extract_topics content) (map fst topic_keywords)"
    unfolding extract_topics_eq by (rule subseq_map_fst_filter)
  from k t sk st extract_keywords_eq extract_topics_eq show ?thesis by blast
qed


theorem extractor_bounds_witness:
  "length (extract_keywords ''Slow app, crash after update'') \<le> 10
   \<and> extract_keywords ''Slow app, crash after update'' = [''app'', ''update'', ''crash'', ''slow'']
   \<and> extract_topics ''Slow app, crash after update'' = [''performance'', ''bugs'']"
proof -
  have "length (extract_keywords ''Slow app, crash after update'') \<le> 10"
    using extractor_bounds [of "''Slow app, crash after update''"] by blast
  moreover have "extract_keywords ''Slow app, crash after update''
      = [''app'', ''update'', ''crash'', ''slow'']" by code_simp
  moreover have "extract_topics ''Slow app, crash after update'' = [''performance'', ''bugs'']"
    by code_simp
  ultimately show ?thesis by blast
qed

text \<open>
  The claim as worded (at most 7 keywords, at most 4 topics) fails: this content has 9
  matched keywords and all 7 topics.
\<close>

theorem extractor_exceeds_7_and_4_counterexample:
  "length (extract_keywords ''slow app, easy design, billing bug, feature cost, help'') = 9
   \<and> length (extract_topics ''slow app, easy design, billing bug, feature cost, help'') = 7"
  by code_simp

subsection \<open>Crisis detection\<close>

lemma count_of_increment:
  "count_of (increment k d) c = count_of d c + (if c = k then 1 else 0)"
  by (induction d) (auto simp: count_of_def)

lemma sum_increment: "sum_list (map snd (increment k d)) = sum_list (map snd d) + 1"
  by (induction d) auto

lemma keys_increment: "fst ` set (increment k d) = insert k (fst ` set d)"
proof (induction d)
  case Nil
  show ?case by simp
next
  case (Cons kn d)
  obtain k' n where kn: "kn = (k', n)" by (cases kn)
  show ?case
  proof (cases "k' = k")
    case True
    then show ?thesis unfolding kn by simp
  next
    case False
    then show ?thesis unfolding kn using Cons.IH by (simp add: insert_commute)
  qed
qed

lemma distinct_increment: "distinct (map fst d) \<Longrightarrow> distinct (map fst (increment k d))"
proof (induction d)
  case Nil
  show ?case by simp
next
  case (Cons kn d)
  obtain k' n where kn: "kn = (k', n)" by (cases kn)
  have "k' \<notin> fst ` set (increment k d)" if "k' \<noteq> k"
    using that Cons.prems kn by (simp add: keys_increment)
  then show ?case using Cons kn by auto
qed

lemma first_keyword_in_None: "(first_keyword_in kws t = None) = (\<not> any_in kws t)"
  by (induction kws) (auto simp: any_in_def)

lemma scan_categories_signals:
  "count_of (fst (scan_categories cats r t st)) c = count_of (fst st) c + hits cats c t
   \<and> sum_list (map snd (fst (scan_categories cats r t st)))
       = sum_list (map snd (fst st)) + length (filter (\<lambda>ck. any_in (snd ck) t) cats)
   \<and> fst ` set (fst (scan_categories cats r t st)) \<subseteq> fst ` set (fst st) \<union> fst ` set cats
   \<and> (distinct (map fst (fst st)) \<longrightarrow> distinct (map fst (fst (scan_categories cats r t st))))"
proof (induction cats arbitrary: st)
  case Nil
  show ?case by (simp add: hits_def)
next
  case (Cons ck cats)
  obtain cat kws where ck: "ck = (cat, kws)" by (cases ck)
  show ?case
  proof (cases "first_keyword_in kws t")
    case None
    then have no: "\<not> any_in kws t" by (simp add: first_keyword_in_None [symmetric])
    have s: "scan_categories (ck # cats) r t st = scan_categories cats r t st"
      using None ck by simp
    show ?thesis unfolding s using Cons.IH [of st] no ck by (auto simp: hits_def)
  next
    case (Some kw)
    then have yes: "any_in kws t" using first_keyword_in_None [of kws t] by simp
    define st' where "st' = (increment cat (fst st),
             snd st @
               [\<lparr>ar_review_id = (case r_id r of None \<Rightarrow> ''unknown'' | Some i \<Rightarrow> i),
                 ar_content_snippet = take 100 t @ ''...'',
                 ar_category = cat,
                 ar_keyword = kw,
                 ar_platform = (case r_platform r of None \<Rightarrow> ''unknown'' | Some p \<Rightarrow> p)\<rparr>])"
    have s: "scan_categories (ck # cats) r t st = scan_categories cats r t st'"
      using Some ck by (simp add: st'_def)
    have f: "fst st' = increment cat (fst st)" by (simp add: st'_def)
    show ?thesis unfolding s using Cons.IH [of st'] yes ck
      by (auto simp: hits_def f count_of_increment sum_increment keys_increment
          distinct_increment)
  qed
qed


lemma alerts_loop_filter:
  "alerts_loop d acc = acc @ map alert_for (filter (\<lambda>cn. 2 \<le> snd cn) d)"
proof (induction d arbitrary: acc)
  case Nil
  show ?case by simp
next
  case (Cons cn d)
  obtain c n where cn: "cn = (c, n)" by (cases cn)
  show ?case unfolding cn using Cons.IH by (simp add: alert_for_def)
qed

lemma well_formed_content: "well_formed r \<Longrightarrow> review_content r = Inr (review_text r)"
  by (auto simp: well_formed_def review_content_def review_text_def field_text_def
      split: option.splits py_value.splits)

lemma scan_reviews_signals:
  assumes "\<forall>r\<in>set rs. well_formed r"
  shows "\<exists>st'. scan_reviews rs st = Inr st'
     \<and> (\<forall>c. count_of (fst st') c
             = count_of (fst st) c + sum_list (map (\<lambda>r. hits crisis_keywords c (review_text r)) rs))
     \<and> sum_list (map snd (fst st')) = sum_list (map snd (fst st)) + sum_list (map categories_hit rs)
     \<and> fst ` set (fst st') \<subseteq> fst ` set (fst st) \<union> fst ` set crisis_keywords
     \<and> (distinct (map fst (fst st)) \<longrightarrow> distinct (map fst (fst st')))"
  using assms
proof (induction rs arbitrary: st)
  case Nil
  show ?case by simp
next
  case (Cons r rs)
  have wf: "well_formed r" and rest: "\<forall>r\<in>set rs. well_formed r" using Cons.prems by simp_all
  let ?st1 = "scan_categories crisis_keywords r (review_text r) st"
  have step: "scan_reviews (r # rs) st = scan_reviews rs ?st1"
    by (simp add: well_formed_content [OF wf])
  note one = scan_categories_signals [of crisis_keywords r "review_text r" st]
  from Cons.IH [OF rest, of ?st1] obtain st' where
    s: "scan_reviews rs ?st1 = Inr st'"
    and c: "\<forall>c. count_of (fst st') c
             = count_of (fst ?st1) c + sum_list (map (\<lambda>r. hits crisis_keywords c (review_text r)) rs)"
    and t: "sum_list (map snd (fst st')) = sum_list (map snd (fst ?st1)) + sum_list (map categories_hit rs)"
    and k: "fst ` set (fst st') \<subseteq> fst ` set (fst ?st1) \<union> fst ` set crisis_keywords"
    and d: "distinct (map fst (fst ?st1)) \<longrightarrow> distinct (map fst (fst st'))"
    by blast
  have c': "\<forall>c. count_of (fst st') c
             = count_of (fst st) c
               + sum_list (map (\<lambda>r. hits crisis_keywords c (review_text r)) (r # rs))"
    using c one by simp
  have t': "sum_list (map snd (fst st'))
      = sum_list (map snd (fst st)) + sum_list (map categories_hit (r # rs))"
    using t one by (simp add: categories_hit_def)
  have k': "fst ` set (fst st') \<subseteq> fst ` set (fst st) \<union> fst ` set crisis_keywords"
    using k one by blast
  have d': "distinct (map fst (fst st)) \<longrightarrow> distinct (map fst (fst st'))"
    using d one by blast
  show ?case unfolding step using s c' t' k' d' by blast
qed

lemma crisis_keywords_distinct: "distinct (map fst crisis_keywords)"
  by (simp add: crisis_keywords_def)

lemma hits_one_category:
  "distinct (map fst cats) \<Longrightarrow> ck \<in> set cats \<Longrightarrow>
   hits cats (fst ck) t = (if any_in (snd ck) t then 1 else 0)"
proof (induction cats)
  case Nil
  then show ?case by simp
next
  case (Cons x cats)
  show ?case
  proof (cases "ck = x")
    case True
    have "fst x \<notin> fst ` set cats" using Cons.prems(1) by simp
    then have "fst y \<noteq> fst x" if "y \<in> set cats" for y
      using that by (metis imageI)
    then have "filter (\<lambda>ck'. fst ck' = fst x \<and> any_in (snd ck') t) cats = []"
      by (auto simp: filter_empty_conv)
    then show ?thesis using True by (simp add: hits_def)
  next
    case False
    then have m: "ck \<in> set cats" using Cons.prems(2) by simp
    have "fst x \<notin> fst ` set cats" using Cons.prems(1) by simp
    then have "fst x \<noteq> fst ck" using m by (metis imageI)
    then show ?thesis using Cons.IH m Cons.prems(1) by (simp add: hits_def)
  qed
qed

lemma sum_indicator: "sum_list (map (\<lambda>r. if P r then 1 else 0) rs) = length (filter P rs)"
  by (induction rs) auto

lemma count_is_signal_count:
  assumes "ck \<in> set crisis_keywords"
  shows "sum_list (map (\<lambda>r. hits crisis_keywords (fst ck) (review_text r)) rs)
           = signal_count (snd ck) rs"
proof -
  have "(\<lambda>r. hits crisis_keywords (fst ck) (review_text r))
          = (\<lambda>r. if any_in (snd ck) (review_text r) then 1 else 0)"
    using hits_one_category [OF crisis_keywords_distinct assms] by auto
  then show ?thesis by (simp add: sum_indicator signal_count_def)
qed


lemma review_content_Inr: "review_content r = Inr t \<Longrightarrow> well_formed r"
  by (auto simp: well_formed_def review_content_def split: option.splits py_value.splits)

lemma scan_reviews_Inr: "scan_reviews rs st = Inr st' \<Longrightarrow> \<forall>r\<in>set rs. well_formed r"
proof (induction rs arbitrary: st)
  case Nil
  show ?case by simp
next
  case (Cons r rs)
  from Cons.prems obtain t where t: "review_content r = Inr t"
    by (cases "review_content r") auto
  then have "scan_reviews rs (scan_categories crisis_keywords r t st) = Inr st'"
    using Cons.prems by simp
  then have "\<forall>r\<in>set rs. well_formed r" by (rule Cons.IH)
  then show ?case using review_content_Inr [OF t] by simp
qed

lemma detect_returns_iff:
  assumes "reviews \<noteq> []"
  shows "(\<exists>res. detect_crisis_signals reviews = Inr res) = (\<forall>r\<in>set reviews. well_formed r)"
proof
  assume "\<exists>res. detect_crisis_signals reviews = Inr res"
  then obtain st where "scan_reviews reviews ([], []) = Inr st"
    using assms by (cases "scan_reviews reviews ([], [])") (auto simp: detect_crisis_signals_def)
  then show "\<forall>r\<in>set reviews. well_formed r" by (rule scan_reviews_Inr)
next
  assume "\<forall>r\<in>set reviews. well_formed r"
  from scan_reviews_signals [OF this, of "([], [])"] obtain st where
    "scan_reviews reviews ([], []) = Inr st" by blast
  then show "\<exists>res. detect_crisis_signals reviews = Inr res"
    using assms by (simp add: detect_crisis_signals_def Let_def)
qed

lemma detect_breakdown:
  assumes "reviews \<noteq> []" and "detect_crisis_signals reviews = Inr res"
  shows "\<exists>bd. category_breakdown res = Some bd
     \<and> alerts res = map alert_for (filter (\<lambda>cn. 2 \<le> snd cn) bd)
     \<and> total_signals res = sum_list (map snd bd)
     \<and> crisis_level res = level_of (total_signals res)
     \<and> distinct (map fst bd)
     \<and> fst ` set bd \<subseteq> fst ` set crisis_keywords
     \<and> (\<forall>ck\<in>set crisis_keywords. count_of bd (fst ck) = signal_count (snd ck) reviews)
     \<and> sum_list (map snd bd) = sum_list (map categories_hit reviews)"
proof -
  have wf: "\<forall>r\<in>set reviews. well_formed r"
    using detect_returns_iff [OF assms(1)] assms(2) by blast
  have z: "count_of (fst ([], [])) c = 0" for c by (simp add: count_of_def)
  have "\<exists>st. scan_reviews reviews ([], []) = Inr st
     \<and> (\<forall>c. count_of (fst st) c
             = sum_list (map (\<lambda>r. hits crisis_keywords c (review_text r)) reviews))
     \<and> sum_list (map snd (fst st)) = sum_list (map categories_hit reviews)
     \<and> fst ` set (fst st) \<subseteq> fst ` set crisis_keywords
     \<and> distinct (map fst (fst st))"
    using scan_reviews_signals [OF wf, of "([], [])"] unfolding z by simp
  then obtain st where
    s: "scan_reviews reviews ([], []) = Inr st"
    and c: "\<forall>c. count_of (fst st) c
             = sum_list (map (\<lambda>r. hits crisis_keywords c (review_text r)) reviews)"
    and t: "sum_list (map snd (fst st)) = sum_list (map categories_hit reviews)"
    and k: "fst ` set (fst st) \<subseteq> fst ` set crisis_keywords"
    and d: "distinct (map fst (fst st))"
    by blast
  have res: "res = \<lparr>alerts = alerts_loop (fst st) [],
               crisis_level = level_of (sum_list (map snd (fst st))),
               total_signals = sum_list (map snd (fst st)),
               category_breakdown = Some (fst st),
               affected_reviews = Some (take 5 (snd st)),
               recommendation = Some (get_crisis_recommendation
                 (level_of (sum_list (map snd (fst st)))) (alerts_loop (fst st) []))\<rparr>"
    using assms s by (simp add: detect_crisis_signals_def Let_def level_of_def)
  have sc: "\<forall>ck\<in>set crisis_keywords. count_of (fst st) (fst ck) = signal_count (snd ck) reviews"
    using c count_is_signal_count by simp
  have "category_breakdown res = Some (fst st)
     \<and> alerts res = map alert_for (filter (\<lambda>cn. 2 \<le> snd cn) (fst st))
     \<and> total_signals res = sum_list (map snd (fst st))
     \<and> crisis_level res = level_of (total_signals res)"
    unfolding res by (simp add: alerts_loop_filter)
  then show ?thesis using d k sc t by blast
qed

lemma alert_categories:
  "map alert_category (map alert_for xs) = map fst xs"
  by (induction xs) (auto simp: alert_for_def)

lemma count_of_ge2:
  assumes "distinct (map fst bd)"
  shows "(c \<in> fst ` set (filter (\<lambda>cn. 2 \<le> snd cn) bd)) = (2 \<le> count_of bd c)"
proof
  assume "c \<in> fst ` set (filter (\<lambda>cn. 2 \<le> snd cn) bd)"
  then obtain n where n: "(c, n) \<in> set bd" "2 \<le> n" by auto
  then have "map_of bd c = Some n" using assms by (metis map_of_is_SomeI)
  then show "2 \<le> count_of bd c" using n(2) by (simp add: count_of_def)
next
  assume a: "2 \<le> count_of bd c"
  then obtain n where n: "map_of bd c = Some n" "2 \<le> n"
    by (cases "map_of bd c") (auto simp: count_of_def)
  then have "(c, n) \<in> set bd" by (metis map_of_SomeD)
  then show "c \<in> fst ` set (filter (\<lambda>cn. 2 \<le> snd cn) bd)" using n(2) by force
qed

lemma sum_list_ge_length: "\<forall>r\<in>set rs. 1 \<le> f r \<Longrightarrow> length rs \<le> sum_list (map f rs)"
  by (induction rs) (auto simp: add_mono)

lemma sum_list_eq_length: "\<forall>r\<in>set rs. f r = (1::nat) \<Longrightarrow> sum_list (map f rs) = length rs"
  by (induction rs) auto

lemma not_working_hits:
  assumes "sublist ''not working'' (review_text r)"
  shows "1 \<le> categories_hit r"
proof -
  let ?ck = "(''technical'', [''crash'', ''not working'', ''broken'', ''down'', ''offline'', ''error''])"
  have m: "?ck \<in> set crisis_keywords" by (simp add: crisis_keywords_def)
  have "any_in (snd ?ck) (review_text r)" using assms by (simp add: any_in_def)
  then have "?ck \<in> set (filter (\<lambda>ck. any_in (snd ck) (review_text r)) crisis_keywords)"
    using m by simp
  then have "filter (\<lambda>ck. any_in (snd ck) (review_text r)) crisis_keywords \<noteq> []"
    by (metis empty_iff list.set(1))
  then show ?thesis unfolding categories_hit_def by (simp add: Suc_leI)
qed


text \<open>
  C2. On empty input the aggregators return their fallback constants: the reputation
  score of an empty list of mentions is 50, and crisis detection on an empty list of
  reviews returns the level "none", 0 signals and no alerts (and raises nothing).
\<close>

theorem empty_input_fallbacks:
  "calculate_reputation_score [] = 50
   \<and> detect_crisis_signals []
       = Inr \<lparr>alerts = [], crisis_level = ''none'', total_signals = 0,
              category_breakdown = None, affected_reviews = None, recommendation = None\<rparr>"
  by (simp add: calculate_reputation_score_def detect_crisis_signals_def)

text \<open>
  C4 (as amended). Detection returns a result for every batch whose reviews are well
  formed. For every non-empty batch and every result it returns: the level is
  "critical" from 10 signals, "high" from 5, "medium" from 2 and "low" below, never
  "none"; the number of signals is the sum of the category counts, each count being
  the number of reviews that hold a keyword of the category; there is an alert for
  exactly the categories with a count of 2 or more, one each, with that count and
  with severity "high" from 5 and "medium" below. Twelve reviews that each hold
  "not working" give at least 12 signals and the level "critical", and exactly 12
  signals when each review holds keywords of one category only.
\<close>

theorem crisis_level_and_alerts:
  assumes "reviews \<noteq> []"
  shows "((\<forall>r\<in>set reviews. well_formed r) \<longrightarrow> (\<exists>res. detect_crisis_signals reviews = Inr res))
     \<and> (\<forall>res. detect_crisis_signals reviews = Inr res \<longrightarrow>
          crisis_level res = level_of (total_signals res)
        \<and> crisis_level res \<noteq> ''none''
        \<and> (\<exists>bd. category_breakdown res = Some bd
               \<and> total_signals res = sum_list (map snd bd)
               \<and> (\<forall>ck\<in>set crisis_keywords.
                     count_of bd (fst ck) = signal_count (snd ck) reviews))
        \<and> total_signals res = sum_list (map categories_hit reviews)
        \<and> (\<forall>ck\<in>set crisis_keywords.
              (fst ck \<in> alert_category ` set (alerts res))
                = (2 \<le> signal_count (snd ck) reviews))
        \<and> (\<forall>a\<in>set (alerts res). \<exists>ck\<in>set crisis_keywords.
              alert_category a = fst ck
              \<and> alert_count a = signal_count (snd ck) reviews
              \<and> alert_severity a = (if 5 \<le> alert_count a then ''high'' else ''medium''))
        \<and> distinct (map alert_category (alerts res))
        \<and> (length reviews = 12 \<and> (\<forall>r\<in>set reviews. sublist ''not working'' (review_text r))
             \<longrightarrow> 12 \<le> total_signals res \<and> crisis_level res = ''critical''
                \<and> ((\<forall>r\<in>set reviews. categories_hit r = 1) \<longrightarrow> total_signals res = 12)))"
proof (intro conjI allI impI)
  assume "\<forall>r\<in>set reviews. well_formed r"
  then show "\<exists>res. detect_crisis_signals reviews = Inr res"
    using detect_returns_iff [OF assms] by blast
next
  fix res
  assume r: "detect_crisis_signals reviews = Inr res"
  from detect_breakdown [OF assms r] obtain bd where
    bd: "category_breakdown res = Some bd"
    and al: "alerts res = map alert_for (filter (\<lambda>cn. 2 \<le> snd cn) bd)"
    and tot: "total_signals res = sum_list (map snd bd)"
    and lev: "crisis_level res = level_of (total_signals res)"
    and dis: "distinct (map fst bd)"
    and keys: "fst ` set bd \<subseteq> fst ` set crisis_keywords"
    and cnt: "\<forall>ck\<in>set crisis_keywords. count_of bd (fst ck) = signal_count (snd ck) reviews"
    and hit: "sum_list (map snd bd) = sum_list (map categories_hit reviews)"
    by blast
  show "crisis_level res = level_of (total_signals res)" by (rule lev)
  show "crisis_level res \<noteq> ''none''" unfolding lev by (simp add: level_of_def)
  show "\<exists>bd. category_breakdown res = Some bd
               \<and> total_signals res = sum_list (map snd bd)
               \<and> (\<forall>ck\<in>set crisis_keywords.
                     count_of bd (fst ck) = signal_count (snd ck) reviews)"
    using bd tot cnt by blast
  show th: "total_signals res = sum_list (map categories_hit reviews)"
    using tot hit by simp
  have cats: "alert_category ` set (alerts res) = fst ` set (filter (\<lambda>cn. 2 \<le> snd cn) bd)"
  proof -
    have "alert_category ` set (alerts res) = set (map alert_category (alerts res))" by simp
    also have "\<dots> = set (map fst (filter (\<lambda>cn. 2 \<le> snd cn) bd))"
      unfolding al alert_categories ..
    finally show ?thesis by simp
  qed
  show "\<forall>ck\<in>set crisis_keywords.
              (fst ck \<in> alert_category ` set (alerts res))
                = (2 \<le> signal_count (snd ck) reviews)"
    unfolding cats count_of_ge2 [OF dis] using cnt by simp
  show "\<forall>a\<in>set (alerts res). \<exists>ck\<in>set crisis_keywords.
              alert_category a = fst ck
              \<and> alert_count a = signal_count (snd ck) reviews
              \<and> alert_severity a = (if 5 \<le> alert_count a then ''high'' else ''medium'')"
  proof
    fix a assume "a \<in> set (alerts res)"
    then obtain cn where cn: "cn \<in> set bd" "2 \<le> snd cn" "a = alert_for cn"
      unfolding al by auto
    have "fst cn \<in> fst ` set crisis_keywords" using cn(1) keys by blast
    then obtain ck where ck: "ck \<in> set crisis_keywords" "fst ck = fst cn" by force
    have "(fst cn, snd cn) \<in> set bd" using cn(1) by simp
    then have "map_of bd (fst cn) = Some (snd cn)" using dis by (metis map_of_is_SomeI)
    then have "count_of bd (fst ck) = snd cn" using ck(2) by (simp add: count_of_def)
    then have "snd cn = signal_count (snd ck) reviews" using cnt ck(1) by simp
    then have "alert_category a = fst ck
              \<and> alert_count a = signal_count (snd ck) reviews
              \<and> alert_severity a = (if 5 \<le> alert_count a then ''high'' else ''medium'')"
      using cn(3) ck(2) by (simp add: alert_for_def)
    then show "\<exists>ck\<in>set crisis_keywords.
              alert_category a = fst ck
              \<and> alert_count a = signal_count (snd ck) reviews
              \<and> alert_severity a = (if 5 \<le> alert_count a then ''high'' else ''medium'')"
      using ck(1) by blast
  qed
  show "distinct (map alert_category (alerts res))"
    unfolding al alert_categories using dis by (rule distinct_map_filter)
  {
    assume s: "length reviews = 12 \<and> (\<forall>r\<in>set reviews. sublist ''not working'' (review_text r))"
    then have "\<forall>r\<in>set reviews. 1 \<le> categories_hit r" using not_working_hits by blast
    then have "length reviews \<le> sum_list (map categories_hit reviews)"
      by (rule sum_list_ge_length)
    then show ge: "12 \<le> total_signals res" using s th by simp
    then show "crisis_level res = ''critical''" unfolding lev by (simp add: level_of_def)
    {
      assume "\<forall>r\<in>set reviews. categories_hit r = 1"
      then have "sum_list (map categories_hit reviews) = length reviews"
        by (rule sum_list_eq_length)
      then show "total_signals res = 12" using s th by simp
    }
  }
qed


text \<open>An instance: twelve reviews "App NOT working".\<close>

theorem crisis_level_and_alerts_witness:
  "\<exists>res. detect_crisis_signals
       (replicate 12 \<lparr>r_content = Some (PyStr ''App NOT working''), r_title = None,
                       r_id = None, r_platform = Some ''Reddit''\<rparr>) = Inr res
     \<and> total_signals res = 12 \<and> crisis_level res = ''critical''"
proof -
  let ?R = "\<lparr>r_content = Some (PyStr ''App NOT working''), r_title = None,
              r_id = None, r_platform = Some ''Reddit''\<rparr>"
  let ?B = "replicate 12 ?R"
  have ne: "?B \<noteq> []" by simp
  have wf: "\<forall>r\<in>set ?B. well_formed r" by (simp add: well_formed_def)
  have len: "length ?B = 12" by simp
  have nw: "sublist ''not working'' (review_text ?R)" by code_simp
  have one: "categories_hit ?R = 1" by code_simp
  note th = crisis_level_and_alerts [OF ne]
  from th wf obtain res where res: "detect_crisis_signals ?B = Inr res" by blast
  have a: "\<forall>r\<in>set ?B. sublist ''not working'' (review_text r)" using nw by simp
  have b: "\<forall>r\<in>set ?B. categories_hit r = 1" using one by simp
  have "total_signals res = 12 \<and> crisis_level res = ''critical''"
    using th res len a b by blast
  then show ?thesis using res by blast
qed

text \<open>
  The claim as worded (twelve such mentions yield 12 signals) fails when the mentions
  also hold a keyword of another category: twelve reviews "Payment not working" count
  for the technical and for the payment category, 24 signals.
\<close>

theorem twelve_not_working_counterexample:
  "\<not> isl (detect_crisis_signals
       (replicate 12 \<lparr>r_content = Some (PyStr ''Payment not working''), r_title = None,
                       r_id = None, r_platform = None\<rparr>))
   \<and> total_signals (projr (detect_crisis_signals
       (replicate 12 \<lparr>r_content = Some (PyStr ''Payment not working''), r_title = None,
                       r_id = None, r_platform = None\<rparr>))) = 24
   \<and> crisis_level (projr (detect_crisis_signals
       (replicate 12 \<lparr>r_content = Some (PyStr ''Payment not working''), r_title = None,
                       r_id = None, r_platform = None\<rparr>))) = ''critical''
   \<and> sublist ''not working''
        (review_text \<lparr>r_content = Some (PyStr ''Payment not working''), r_title = None,
                       r_id = None, r_platform = None\<rparr>)"
  by code_simp

end
